theory Spec2Isabelle
  imports Main "HOL-Library.AList" "HOL-Library.Sublist"
begin

section \<open>Shared data: exceptions, JSON values, decimal formatting\<close>

text \<open>
  A model of \<open>server.py\<close>, and of the one test of \<open>client.py\<close> on the answer of
  \<open>POST /sessions\<close>. Handlers are functions from the server's two dictionaries and
  the world outside to a result and the new state; what a call receives from outside
  (the uuid, the clock, the answers of the operating system and of the browser) is an
  argument. The calls of \<open>logger\<close> are left out, but for the error lines of the
  relay task.

  The exceptions that the server code raises or catches: \<open>HTTPException\<close> carries
  its status code and detail; \<open>IOError\<close> is what \<open>find_free_port\<close> raises; the
  others stand for failures of the operating system, the websocket library and the
  JSON and attribute machinery of Python.
\<close>

datatype error =
    HTTPException nat string
  | IOError string
  | OSError string
  | ConnectionFailed
  | JSONDecodeError
  | AttributeError

text \<open>A value as \<open>json.loads\<close> returns it; an object keeps its items as a list.\<close>

datatype json =
    JNull
  | JBool bool
  | JNum int
  | JStr string
  | JArr "json list"
  | JObj "(string \<times> json) list"

text \<open>\<open>str(n)\<close> for a non-negative integer, as the f-strings of the source format a port.\<close>

definition digit_char :: "nat \<Rightarrow> char" where
  "digit_char d = ''0123456789'' ! d"

function str_nat :: "nat \<Rightarrow> string" where
  "str_nat n = (if n < 10 then [digit_char n] else str_nat (n div 10) @ [digit_char (n mod 10)])"
  by pat_completeness auto
termination
  by (relation "measure (\<lambda>n. n)") auto

declare str_nat.simps [simp del]

section \<open>The port allocator: \<open>find_free_port\<close>\<close>

text \<open>
  \<open>can_bind p\<close> says whether \<open>s.bind(('', p))\<close> on a fresh socket succeeds (no
  \<open>OSError\<close>). The socket is closed again when the \<open>with\<close> block is left, so the
  scan reserves nothing. The loop runs over \<open>range(start_port, end_port + 1)\<close>.
\<close>

fun scan_ports :: "(nat \<Rightarrow> bool) \<Rightarrow> nat list \<Rightarrow> nat option" where
  "scan_ports can_bind [] = None"
| "scan_ports can_bind (p # ps) = (if can_bind p then Some p else scan_ports can_bind ps)"

definition find_free_port :: "(nat \<Rightarrow> bool) \<Rightarrow> nat \<Rightarrow> nat \<Rightarrow> error + nat" where
  "find_free_port can_bind start_port end_port =
     (case scan_ports can_bind [start_port ..< end_port + 1] of
        Some p \<Rightarrow> Inr p
      | None \<Rightarrow> Inl (IOError (''No free ports in range '' @ str_nat start_port @ ''-''
                               @ str_nat end_port)))"

section \<open>The world outside the server\<close>

text \<open>
  What the server reads from and does to its environment: \<open>os.environ\<close>; the
  process table, which holds the processes that run (\<open>alive\<close>) and those that have
  exited but whose exit status their parent has not collected (\<open>zombies\<close>);
  the signals that \<open>os.kill\<close> has sent, latest first; and the ways in which the
  calls on a process can fail: \<open>psutil.pid_exists\<close> raising and \<open>os.kill\<close>
  raising \<open>PermissionError\<close>. \<open>psutil.pid_exists\<close> reports every process of
  the table, running or not. \<open>os.kill\<close> only sends the signal: when the process
  leaves \<open>alive\<close> is the operating system's matter, and it leaves the table only
  when its exit status is collected.
\<close>

datatype signal = SIGTERM | SIGKILL

record world =
  environ :: "string \<rightharpoonup> string"
  alive :: "nat set"
  zombies :: "nat set"
  sent :: "(nat \<times> signal) list"
  pid_exists_raises :: "nat set"
  kill_denied :: "nat set"

definition pid_exists :: "world \<Rightarrow> nat \<Rightarrow> error + bool" where
  "pid_exists w p = (if p \<in> pid_exists_raises w then Inl (OSError ''psutil'') else Inr (p \<in> alive w \<or> p \<in> zombies w))"

definition is_process_running :: "world \<Rightarrow> nat \<Rightarrow> bool" where
  "is_process_running w p = (case pid_exists w p of Inr b \<Rightarrow> b | Inl e \<Rightarrow> False)"

definition os_kill :: "world \<Rightarrow> nat \<Rightarrow> signal \<Rightarrow> error + world" where
  "os_kill w p sg =
     (if p \<notin> alive w \<and> p \<notin> zombies w then Inl (OSError ''ProcessLookupError'')
      else if p \<in> kill_denied w then Inl (OSError ''PermissionError'')
      else Inr (w\<lparr>sent := (p, sg) # sent w\<rparr>))"

definition cdp_host :: "world \<Rightarrow> string" where
  "cdp_host w = (case environ w ''CDP_HOST'' of Some h \<Rightarrow> h | None \<Rightarrow> ''host.docker.internal'')"

definition chrome_bin :: "world \<Rightarrow> string" where
  "chrome_bin w = (case environ w ''CHROME_BIN'' of Some b \<Rightarrow> b | None \<Rightarrow> ''google-chrome'')"

section \<open>Sessions and the two registries\<close>

text \<open>
  \<open>subprocess.Popen\<close> with \<open>stdout=PIPE\<close>: the handle knows the child's pid and
  holds the pipe, of which the model keeps what \<open>read()\<close> would return.
\<close>

record Popen =
  pid :: nat
  stdout :: "string option"

record BrowserSession =
  session_id :: string
  process :: Popen
  port :: nat
  created_at :: string
  events :: "json list"

text \<open>
  A relay task is known by the arguments of its coroutine. The dictionaries are
  association lists in insertion order, as Python keeps them: \<open>d[k] = v\<close> is
  \<open>AList.update\<close>, \<open>del d[k]\<close> is \<open>AList.delete\<close>, \<open>k in d\<close> is a lookup with
  \<open>map_of\<close>. \<open>cancelled\<close> lists the tasks on which \<open>cancel()\<close> was called.
\<close>

type_synonym task = "string \<times> nat"

type_synonym registry = "(string \<times> BrowserSession) list"

record server =
  browser_sessions :: registry
  monitoring_tasks :: "(string \<times> task) list"
  cancelled :: "task list"

record SessionResponse =
  resp_session_id :: string
  cdp_url :: string
  resp_created_at :: string

section \<open>\<open>create_session\<close>\<close>

text \<open>
  What one call of \<open>create_session\<close> receives from outside: the uuid, the bind
  test of the port scan, the outcome of \<open>Popen\<close> (an exception or the child's pid),
  whether the child has exited when the settle delay is over, what the child has
  written to its pipe by then, how many characters of that the logging thread
  \<open>log_output\<close> has taken from the pipe by then, and the clock. The thread is
  started right after \<open>Popen\<close> and reads the same pipe line by line until its
  end, so \<open>process.stdout.read()\<close> finds only what the thread has left.
\<close>

record create_io =
  new_uuid :: string
  can_bind :: "nat \<Rightarrow> bool"
  popen :: "string list \<Rightarrow> error + nat"
  exits_in_settle :: bool
  child_output :: string
  log_taken :: nat
  now_iso :: string

definition unread_output :: "create_io \<Rightarrow> string" where
  "unread_output io = drop (log_taken io) (child_output io)"

definition chrome_cmd :: "world \<Rightarrow> nat \<Rightarrow> string list" where
  "chrome_cmd w p =
     [chrome_bin w, ''--remote-debugging-port='' @ str_nat p,
      ''--remote-debugging-address=0.0.0.0'', ''--disable-gpu'', ''--headless'',
      ''--no-sandbox'', ''--disable-setuid-sandbox'', ''--disable-dev-shm-usage'']"

record launched =
  l_session_id :: string
  l_port :: nat
  l_process :: Popen

text \<open>
  Lines 109 to 140: the id, the port, the child process. The registry is not read.
\<close>

definition create_launch :: "create_io \<Rightarrow> world \<Rightarrow> (error + launched) \<times> world" where
  "create_launch io w =
     (case find_free_port (can_bind io) 9222 9322 of
        Inl e \<Rightarrow> (Inl e, w)
      | Inr p \<Rightarrow>
          (case popen io (chrome_cmd w p) of
             Inl e \<Rightarrow> (Inl (HTTPException 500 ''Failed to start browser''), w)
           | Inr c \<Rightarrow>
               (Inr \<lparr>l_session_id = new_uuid io, l_port = p,
                     l_process = \<lparr>pid = c, stdout = Some (unread_output io)\<rparr>\<rparr>,
                w\<lparr>alive := insert c (alive w)\<rparr>)))"

text \<open>
  \<open>await asyncio.sleep(1)\<close>: the child may exit meanwhile. \<open>process.poll()\<close> is
  not \<open>None\<close> exactly when the child is no longer running; it then collects the
  child's exit status, which takes the child out of the process table.
\<close>

definition settle :: "create_io \<Rightarrow> launched \<Rightarrow> world \<Rightarrow> world" where
  "settle io l w =
     (if exits_in_settle io
      then w\<lparr>alive := alive w - {pid (l_process l)}, zombies := insert (pid (l_process l)) (zombies w)\<rparr>
      else w)"

definition poll_exited :: "world \<Rightarrow> Popen \<Rightarrow> bool" where
  "poll_exited w h = (pid h \<notin> alive w)"

definition reaped :: "world \<Rightarrow> Popen \<Rightarrow> world" where
  "reaped w h = w\<lparr>zombies := zombies w - {pid h}\<rparr>"

text \<open>Lines 143 to 163: the liveness check, the registration, the relay task, the answer.\<close>

definition create_register ::
  "create_io \<Rightarrow> launched \<Rightarrow> server \<times> world \<Rightarrow> (error + SessionResponse) \<times> server \<times> world" where
  "create_register io l st =
     (let srv = fst st; w = snd st in
      if poll_exited w (l_process l) then
        (Inl (HTTPException 500
               (case stdout (l_process l) of Some out \<Rightarrow> out
                | None \<Rightarrow> ''Process exited immediately'')), srv, reaped w (l_process l))
      else
        (let s = \<lparr>session_id = l_session_id l, process = l_process l, port = l_port l,
                  created_at = now_iso io, events = []\<rparr>;
             srv' = srv\<lparr>browser_sessions := AList.update (l_session_id l) s (browser_sessions srv),
                        monitoring_tasks := AList.update (l_session_id l) (l_session_id l, l_port l)
                                              (monitoring_tasks srv)\<rparr>
         in (Inr \<lparr>resp_session_id = l_session_id l,
                  cdp_url = ''ws://'' @ cdp_host w @ '':'' @ str_nat (l_port l),
                  resp_created_at = created_at s\<rparr>, srv', w)))"

definition create_session ::
  "create_io \<Rightarrow> server \<times> world \<Rightarrow> (error + SessionResponse) \<times> server \<times> world" where
  "create_session io st =
     (case create_launch io (snd st) of
        (Inl e, w) \<Rightarrow> (Inl e, fst st, w)
      | (Inr l, w) \<Rightarrow> create_register io l (fst st, settle io l w))"

section \<open>The HTTP layer and the client\<close>

text \<open>
  The route is declared as \<open>@app.post("/sessions", response_model=SessionResponse)\<close>,
  with no \<open>status_code\<close>. FastAPI answers a normal return with the route's status
  code, which is 200 when the decorator gives none; an \<open>HTTPException\<close> with its own
  status code and detail; any other exception with 500.
\<close>

datatype http_body = SessionBody SessionResponse | DetailBody string | ServerErrorBody

record http_response =
  status :: nat
  body :: http_body

definition route_status :: "nat option \<Rightarrow> nat" where
  "route_status declared = (case declared of Some c \<Rightarrow> c | None \<Rightarrow> 200)"

definition post_sessions :: "create_io \<Rightarrow> server \<times> world \<Rightarrow> http_response \<times> server \<times> world" where
  "post_sessions io st =
     (case create_session io st of
        (Inr r, st') \<Rightarrow> (\<lparr>status = route_status None, body = SessionBody r\<rparr>, st')
      | (Inl (HTTPException c d), st') \<Rightarrow> (\<lparr>status = c, body = DetailBody d\<rparr>, st')
      | (Inl e, st') \<Rightarrow> (\<lparr>status = 500, body = ServerErrorBody\<rparr>, st'))"

text \<open>
  \<open>BrowserClient.create_session\<close> of \<open>client.py\<close>: anything but 201 is a failure;
  otherwise the body must hold \<open>session_id\<close> and \<open>cdp_url\<close>.
\<close>

definition client_create_session :: "http_response \<Rightarrow> bool" where
  "client_create_session resp =
     (if status resp \<noteq> 201 then False
      else (case body resp of SessionBody r \<Rightarrow> True | _ \<Rightarrow> False))"

section \<open>\<open>delete_session\<close> and \<open>shutdown_event\<close>\<close>

text \<open>
  The \<open>try\<close> block around the liveness check and \<open>os.kill\<close>: an exception is logged
  and the world stays as it was.
\<close>

definition kill_if_running :: "world \<Rightarrow> nat \<Rightarrow> signal \<Rightarrow> world" where
  "kill_if_running w p sg =
     (if is_process_running w p
      then (case os_kill w p sg of Inr w' \<Rightarrow> w' | Inl e \<Rightarrow> w)
      else w)"

definition delete_session ::
  "string \<Rightarrow> server \<times> world \<Rightarrow> (error + string \<times> string) \<times> server \<times> world" where
  "delete_session sid st =
     (let srv = fst st; w = snd st in
      case map_of (browser_sessions srv) sid of
        None \<Rightarrow> (Inl (HTTPException 404 ''Session not found''), srv, w)
      | Some session \<Rightarrow>
          (let w1 = kill_if_running w (pid (process session)) SIGTERM;
               srv1 = (case map_of (monitoring_tasks srv) sid of
                         Some t \<Rightarrow> srv\<lparr>monitoring_tasks := AList.delete sid (monitoring_tasks srv),
                                         cancelled := t # cancelled srv\<rparr>
                       | None \<Rightarrow> srv);
               srv2 = srv1\<lparr>browser_sessions := AList.delete sid (browser_sessions srv1)\<rparr>
           in (Inr (''success'', ''Session '' @ sid @ '' terminated''), srv2, w1)))"

text \<open>
  The loop of \<open>shutdown_event\<close> over \<open>list(browser_sessions.items())\<close>; the task
  dictionary is only read in the loop.
\<close>

fun shutdown_loop ::
  "(string \<times> BrowserSession) list \<Rightarrow> (string \<times> task) list \<Rightarrow> world \<times> task list \<Rightarrow> world \<times> task list" where
  "shutdown_loop [] tasks (w, c) = (w, c)"
| "shutdown_loop ((sid, session) # rest) tasks (w, c) =
     shutdown_loop rest tasks
       (kill_if_running w (pid (process session)) SIGKILL,
        (case map_of tasks sid of Some t \<Rightarrow> t # c | None \<Rightarrow> c))"

definition shutdown_event :: "server \<times> world \<Rightarrow> server \<times> world" where
  "shutdown_event st =
     (case shutdown_loop (browser_sessions (fst st)) (monitoring_tasks (fst st))
             (snd st, cancelled (fst st)) of
        (w, c) \<Rightarrow> (\<lparr>browser_sessions = [], monitoring_tasks = [], cancelled = c\<rparr>, w))"

section \<open>The relay task: \<open>monitor_browser_session\<close>\<close>

text \<open>
  What the task does to the outside is kept as a list of actions. Durations are in
  milliseconds: \<open>asyncio.sleep(0.5)\<close> is \<open>Sleep 500\<close>.
\<close>

datatype action = Connect string | Send json | Sleep nat | LogError string

text \<open>
  The discovery loop \<open>for _ in range(20)\<close>: \<open>attempt i\<close> is how the \<open>i\<close>-th
  \<open>websockets.connect\<close> and \<open>recv\<close> end: with an exception, with the text
  received, or not at all (this \<open>recv\<close> has no timeout). The empty list is the
  \<open>else\<close> branch of the loop. A cancellation of the task during this phase is
  left out: it only ends the phase earlier.
\<close>

datatype attempt_result = Failed error | Received string | NoAnswer

datatype discovery = Found string | GaveUp | Waiting

fun discover :: "string \<Rightarrow> (nat \<Rightarrow> attempt_result) \<Rightarrow> nat list \<Rightarrow> action list \<times> discovery" where
  "discover url attempt [] = ([], GaveUp)"
| "discover url attempt (i # rest) =
     (case attempt i of
        Received response \<Rightarrow> ([Connect url], Found response)
      | NoAnswer \<Rightarrow> ([Connect url], Waiting)
      | Failed e \<Rightarrow>
          (case discover url attempt rest of
             (acts, d) \<Rightarrow> (Connect url # Sleep 500 # acts, d)))"

text \<open>
  Python's \<open>s.replace(old, new)\<close>: every occurrence of \<open>old\<close>, found from the left
  and not overlapping, becomes \<open>new\<close>; an empty \<open>old\<close> matches before every
  character and at the end.
\<close>

function replace_from :: "string \<Rightarrow> string \<Rightarrow> string \<Rightarrow> string" where
  "replace_from old new [] = []"
| "replace_from old new (c # cs) =
     (if old \<noteq> [] \<and> prefix old (c # cs)
      then new @ replace_from old new (drop (length old) (c # cs))
      else c # replace_from old new cs)"
  by pat_completeness auto
termination
  by (relation "measure (\<lambda>(old, new, s). length s)") (auto simp: neq_Nil_conv)

definition replace :: "string \<Rightarrow> string \<Rightarrow> string \<Rightarrow> string" where
  "replace s old new =
     (if old = [] then new @ concat (map (\<lambda>c. c # new) s) else replace_from old new s)"

text \<open>
  Lines 81 to 84 after \<open>json.loads\<close>: \<open>browser_info.get("webSocketDebuggerUrl", "")\<close>
  needs a dictionary and \<open>.replace\<close> needs a string; anything else raises
  \<open>AttributeError\<close>. The items of a \<open>JObj\<close> are those of the dictionary.
\<close>

definition debugger_url :: "world \<Rightarrow> json \<Rightarrow> error + string" where
  "debugger_url w browser_info =
     (case browser_info of
        JObj items \<Rightarrow>
          (case (case map_of items ''webSocketDebuggerUrl'' of Some v \<Rightarrow> v | None \<Rightarrow> JStr '''') of
             JStr s \<Rightarrow> Inr (replace s ''localhost'' (cdp_host w))
           | _ \<Rightarrow> Inl AttributeError)
      | _ \<Rightarrow> Inl AttributeError)"

text \<open>The three enable commands, sent in turn; a failing \<open>send\<close> raises.\<close>

definition enable_command :: "int \<Rightarrow> string \<Rightarrow> json" where
  "enable_command i m = JObj [(''id'', JNum i), (''method'', JStr m)]"

fun send_all :: "(int \<Rightarrow> bool) \<Rightarrow> (int \<times> string) list \<Rightarrow> action list \<times> bool" where
  "send_all send_ok [] = ([], True)"
| "send_all send_ok ((i, m) # rest) =
     (if send_ok i
      then (case send_all send_ok rest of (acts, ok) \<Rightarrow> (Send (enable_command i m) # acts, ok))
      else ([], False))"

text \<open>
  The drain loop. Each turn of the loop suspends in \<open>wait_for(websocket.recv(), 1.0)\<close>;
  while it is suspended other handlers may write the registry: \<open>create_session\<close>
  stores a session, \<open>delete_session\<close> deletes one, \<open>shutdown_event\<close> clears the
  dictionary. A tick is what happens in one turn: those writes, then how the receive
  ends. The list of ticks is the schedule; when it is used up the task is still
  suspended in the loop.
\<close>

datatype ext_op = ExtStore BrowserSession | ExtDelete string | ExtClear

fun apply_ext :: "ext_op \<Rightarrow> registry \<Rightarrow> registry" where
  "apply_ext (ExtStore s) reg = AList.update (session_id s) s reg"
| "apply_ext (ExtDelete k) reg = AList.delete k reg"
| "apply_ext ExtClear reg = []"

definition apply_exts :: "ext_op list \<Rightarrow> registry \<Rightarrow> registry" where
  "apply_exts ops reg = fold apply_ext ops reg"

datatype recv = Message string | Timeout | RecvFailed | CancelledError

datatype outcome = Returned | Raised error | TaskCancelled | Suspended

text \<open>Lines 96 and 97: the second membership test and the append.\<close>

definition store_event :: "string \<Rightarrow> json \<Rightarrow> registry \<Rightarrow> registry" where
  "store_event sid event reg =
     (case map_of reg sid of
        Some s \<Rightarrow> AList.update sid (s\<lparr>events := events s @ [event]\<rparr>) reg
      | None \<Rightarrow> reg)"

fun drain ::
  "(string \<Rightarrow> error + json) \<Rightarrow> string \<Rightarrow> (ext_op list \<times> recv) list \<Rightarrow> registry \<Rightarrow> registry \<times> outcome" where
  "drain loads sid [] reg = (reg, if map_of reg sid = None then Returned else Suspended)"
| "drain loads sid ((ext, r) # ticks) reg =
     (if map_of reg sid = None then (reg, Returned)
      else (case r of
              Timeout \<Rightarrow> drain loads sid ticks (apply_exts ext reg)
            | CancelledError \<Rightarrow> (apply_exts ext reg, TaskCancelled)
            | RecvFailed \<Rightarrow> (apply_exts ext reg, Returned)
            | Message m \<Rightarrow>
                (case loads m of
                   Inl e \<Rightarrow> (apply_exts ext reg, Returned)
                 | Inr event \<Rightarrow> drain loads sid ticks (store_event sid event (apply_exts ext reg)))))"

text \<open>
  What the task receives from outside: the outcomes of the discovery attempts,
  \<open>json.loads\<close>, whether the connection to the debugger URL can be opened, whether
  each \<open>send\<close> succeeds, and the schedule of the drain loop.
\<close>

record relay_io =
  attempt :: "nat \<Rightarrow> attempt_result"
  loads :: "string \<Rightarrow> error + json"
  connect_ok :: "string \<Rightarrow> bool"
  send_ok :: "int \<Rightarrow> bool"
  ticks :: "(ext_op list \<times> recv) list"

definition version_url :: "nat \<Rightarrow> string" where
  "version_url p = ''ws://localhost:'' @ str_nat p @ ''/json/version''"

definition discovering :: "relay_io \<Rightarrow> nat \<Rightarrow> action list \<times> discovery" where
  "discovering io p = discover (version_url p) (attempt io) [0 ..< 20]"

text \<open>
  The whole coroutine. Lines 66 to 90 neither read nor write the registry; \<open>reg\<close>
  is the registry as the drain loop first finds it. Lines 81 to 84 stand outside
  every \<open>try\<close>, so their exceptions leave the task.
\<close>

definition monitor_browser_session ::
  "relay_io \<Rightarrow> world \<Rightarrow> string \<Rightarrow> nat \<Rightarrow> registry \<Rightarrow> registry \<times> outcome \<times> action list" where
  "monitor_browser_session io w sid p reg =
     (case discovering io p of
        (acts, GaveUp) \<Rightarrow>
          (reg, Returned, acts @ [LogError (''Could not connect to browser on port '' @ str_nat p)])
      | (acts, Waiting) \<Rightarrow> (reg, Suspended, acts)
      | (acts, Found response) \<Rightarrow>
          (case loads io response of
             Inl e \<Rightarrow> (reg, Raised e, acts)
           | Inr browser_info \<Rightarrow>
               (case debugger_url w browser_info of
                  Inl e \<Rightarrow> (reg, Raised e, acts)
                | Inr url \<Rightarrow>
                    if \<not> connect_ok io url
                    then (reg, Returned, acts @ [Connect url, LogError ''Failed to connect to CDP''])
                    else (case send_all (send_ok io)
                                 [(1, ''Network.enable''), (2, ''Page.enable''), (3, ''Runtime.enable'')] of
                            (sends, False) \<Rightarrow>
                              (reg, Returned,
                               acts @ Connect url # sends @ [LogError ''Failed to connect to CDP''])
                          | (sends, True) \<Rightarrow>
                              (case drain (loads io) sid (ticks io) reg of
                                 (reg', out) \<Rightarrow> (reg', out, acts @ Connect url # sends))))))"

section \<open>The server as a state machine\<close>

text \<open>
  A state is the server's dictionaries, the world, and the calls of \<open>create_session\<close>
  that are suspended in their settle delay. The steps are the handlers, the two halves
  of \<open>create_session\<close> taken apart at its \<open>await\<close>, the append of a relay task,
  and any change of the world. In \<open>reach_exclusive\<close> every port scan runs while the
  operating system refuses a bind on each port that a registered or a suspended
  session was given; the code itself never compares a port with the registry.
\<close>

definition ports_of :: "registry \<Rightarrow> nat list" where
  "ports_of reg = map (\<lambda>e. port (snd e)) reg"

inductive reach_exclusive :: "server \<times> world \<times> launched list \<Rightarrow> bool" where
  reach_init:
    "reach_exclusive (\<lparr>browser_sessions = [], monitoring_tasks = [], cancelled = []\<rparr>, w, [])"
| reach_world:
    "reach_exclusive (srv, w, pend) \<Longrightarrow> reach_exclusive (srv, w', pend)"
| reach_launch:
    "reach_exclusive (srv, w, pend) \<Longrightarrow>
     \<forall>q \<in> set (ports_of (browser_sessions srv) @ map l_port pend). \<not> can_bind io q \<Longrightarrow>
     create_launch io w = (Inr l, w') \<Longrightarrow>
     reach_exclusive (srv, w', l # pend)"
| reach_register:
    "reach_exclusive (srv, w, pend) \<Longrightarrow> l \<in> set pend \<Longrightarrow>
     create_register io l (srv, w) = (r, srv', w') \<Longrightarrow>
     reach_exclusive (srv', w', remove1 l pend)"
| reach_delete:
    "reach_exclusive (srv, w, pend) \<Longrightarrow> delete_session sid (srv, w) = (r, srv', w') \<Longrightarrow>
     reach_exclusive (srv', w', pend)"
| reach_shutdown:
    "reach_exclusive (srv, w, pend) \<Longrightarrow> shutdown_event (srv, w) = (srv', w') \<Longrightarrow>
     reach_exclusive (srv', w', pend)"
| reach_relay:
    "reach_exclusive (srv, w, pend) \<Longrightarrow>
     reach_exclusive (srv\<lparr>browser_sessions := store_event sid event (browser_sessions srv)\<rparr>, w, pend)"

section \<open>Notions used to state the properties\<close>

text \<open>\<open>occurs_in old s\<close>: the text \<open>old\<close> stands somewhere in \<open>s\<close>.\<close>

fun occurs_in :: "string \<Rightarrow> string \<Rightarrow> bool" where
  "occurs_in old [] = (old = [])"
| "occurs_in old (c # cs) = (prefix old (c # cs) \<or> occurs_in old cs)"

text \<open>
  The rewriting of the host component as the specification words it, to compare the
  code with: in \<open>scheme://host:port/path\<close> the host is the text between \<open>://\<close>
  and the next colon or slash; it is replaced and everything else is kept.
\<close>

fun split_scheme :: "string \<Rightarrow> (string \<times> string) option" where
  "split_scheme [] = None"
| "split_scheme (c # cs) =
     (if prefix ''://'' (c # cs) then Some ([], drop 3 (c # cs))
      else map_option (\<lambda>(a, b). (c # a, b)) (split_scheme cs))"

definition spec_rewrite_host :: "string \<Rightarrow> string \<Rightarrow> string" where
  "spec_rewrite_host host url =
     (case split_scheme url of
        None \<Rightarrow> url
      | Some (scheme, rest) \<Rightarrow>
          scheme @ ''://'' @ host @ dropWhile (\<lambda>c. c \<noteq> CHR '':'' \<and> c \<noteq> CHR ''/'') rest)"

text \<open>A discovery attempt that ended with an exception.\<close>

fun failed :: "attempt_result \<Rightarrow> bool" where
  "failed (Failed e) = True"
| "failed a = False"

text \<open>How the discovery ends at an attempt that did not fail.\<close>

fun ends_with :: "attempt_result \<Rightarrow> discovery" where
  "ends_with (Received response) = Found response"
| "ends_with a = Waiting"

text \<open>Counting connection attempts and the time slept in a list of actions.\<close>

fun is_connect :: "action \<Rightarrow> bool" where
  "is_connect (Connect u) = True"
| "is_connect a = False"

fun sleep_ms :: "action \<Rightarrow> nat" where
  "sleep_ms (Sleep n) = n"
| "sleep_ms a = 0"

text \<open>A store by another handler that reuses the id of the watched session.\<close>

fun stores_id :: "string \<Rightarrow> ext_op \<Rightarrow> bool" where
  "stores_id sid (ExtStore s) = (session_id s = sid)"
| "stores_id sid e = False"

text \<open>
  \<open>grown sid reg reg'\<close>: the session \<open>sid\<close> is gone from \<open>reg'\<close>, or it was in
  \<open>reg\<close> and its events there are the first of its events in \<open>reg'\<close>.
\<close>

definition grown :: "string \<Rightarrow> registry \<Rightarrow> registry \<Rightarrow> bool" where
  "grown sid reg reg' =
     (case map_of reg' sid of
        None \<Rightarrow> True
      | Some s' \<Rightarrow> (case map_of reg sid of None \<Rightarrow> False | Some s \<Rightarrow> prefix (events s) (events s')))"

section \<open>Concrete inputs\<close>

definition world0 :: world where
  "world0 = \<lparr>environ = Map.empty, alive = {}, zombies = {}, sent = [],
             pid_exists_raises = {}, kill_denied = {}\<rparr>"

definition server0 :: server where
  "server0 = \<lparr>browser_sessions = [], monitoring_tasks = [], cancelled = []\<rparr>"

definition io_a :: create_io where
  "io_a = \<lparr>new_uuid = ''a'', can_bind = (\<lambda>p. True), popen = (\<lambda>cmd. Inr 101),
           exits_in_settle = False, child_output = [], log_taken = 0,
           now_iso = ''2024-01-01T00:00:00''\<rparr>"

definition io_b :: create_io where
  "io_b = \<lparr>new_uuid = ''b'', can_bind = (\<lambda>p. True), popen = (\<lambda>cmd. Inr 102),
           exits_in_settle = False, child_output = [], log_taken = 0,
           now_iso = ''2024-01-01T00:00:05''\<rparr>"

definition io_none :: create_io where
  "io_none = \<lparr>new_uuid = ''n'', can_bind = (\<lambda>p. False), popen = (\<lambda>cmd. Inr 103),
              exits_in_settle = False, child_output = [], log_taken = 0,
           now_iso = ''2024-01-01T00:00:07''\<rparr>"

definition io_exit :: create_io where
  "io_exit = \<lparr>new_uuid = ''x'', can_bind = (\<lambda>p. True), popen = (\<lambda>cmd. Inr 104),
              exits_in_settle = True, child_output = ''chrome: no usable sandbox'',
              log_taken = 25,
              now_iso = ''2024-01-01T00:00:09''\<rparr>"

definition io_dead :: relay_io where
  "io_dead = \<lparr>attempt = (\<lambda>i. Failed ConnectionFailed), loads = (\<lambda>s. Inl JSONDecodeError),
              connect_ok = (\<lambda>u. False), send_ok = (\<lambda>i. False), ticks = []\<rparr>"

definition io_slow :: relay_io where
  "io_slow = \<lparr>attempt = (\<lambda>i. if i < 3 then Failed ConnectionFailed else Received ''info''),
              loads = (\<lambda>s. Inr (JObj [(''Browser'', JStr ''HeadlessChrome''),
                 (''webSocketDebuggerUrl'', JStr ''ws://localhost:9222/devtools/browser/abc'')])),
              connect_ok = (\<lambda>u. True), send_ok = (\<lambda>i. True), ticks = []\<rparr>"

definition session_a :: BrowserSession where
  "session_a = \<lparr>session_id = ''a'', process = \<lparr>pid = 101, stdout = Some []\<rparr>, port = 9222,
                created_at = ''2024-01-01T00:00:00'', events = []\<rparr>"

definition world_cdp :: world where
  "world_cdp = world0\<lparr>environ := [''CDP_HOST'' \<mapsto> ''browser.example'']\<rparr>"

definition io_ip :: relay_io where
  "io_ip = \<lparr>attempt = (\<lambda>i. Received ''info''),
            loads = (\<lambda>s. Inr (JObj [(''webSocketDebuggerUrl'',
                                       JStr ''ws://127.0.0.1:9222/devtools/browser/abc'')])),
            connect_ok = (\<lambda>u. True), send_ok = (\<lambda>i. True), ticks = []\<rparr>"

definition srv_a :: server where
  "srv_a = \<lparr>browser_sessions = [(''a'', session_a)], monitoring_tasks = [(''a'', (''a'', 9222))],
            cancelled = []\<rparr>"

definition world_denied :: world where
  "world_denied = world0\<lparr>alive := {101}, kill_denied := {101}\<rparr>"

definition world_running :: world where
  "world_running = world0\<lparr>alive := {101}\<rparr>"

definition loads_text :: "string \<Rightarrow> error + json" where
  "loads_text m = (if m = [] then Inl JSONDecodeError else Inr (JStr m))"

definition io_c :: create_io where
  "io_c = \<lparr>new_uuid = ''c'', can_bind = (\<lambda>p. p \<noteq> 9222), popen = (\<lambda>cmd. Inr 105),
           exits_in_settle = False, child_output = [], log_taken = 0,
           now_iso = ''2024-01-01T00:00:11''\<rparr>"

definition session_b :: BrowserSession where
  "session_b = \<lparr>session_id = ''b'', process = \<lparr>pid = 102, stdout = Some []\<rparr>, port = 9222,
                created_at = ''2024-01-01T00:00:05'', events = []\<rparr>"

definition session_c :: BrowserSession where
  "session_c = \<lparr>session_id = ''c'', process = \<lparr>pid = 105, stdout = Some []\<rparr>, port = 9223,
                created_at = ''2024-01-01T00:00:11'', events = []\<rparr>"

definition launched_a :: launched where
  "launched_a = \<lparr>l_session_id = ''a'', l_port = 9222, l_process = \<lparr>pid = 101, stdout = Some []\<rparr>\<rparr>"

definition launched_b :: launched where
  "launched_b = \<lparr>l_session_id = ''b'', l_port = 9222, l_process = \<lparr>pid = 102, stdout = Some []\<rparr>\<rparr>"

definition launched_c :: launched where
  "launched_c = \<lparr>l_session_id = ''c'', l_port = 9223, l_process = \<lparr>pid = 105, stdout = Some []\<rparr>\<rparr>"

definition world_two :: world where
  "world_two = world_running\<lparr>alive := insert 102 (alive world_running)\<rparr>"

definition srv_ab :: server where
  "srv_ab = \<lparr>browser_sessions = [(''a'', session_a), (''b'', session_b)],
             monitoring_tasks = [(''a'', (''a'', 9222)), (''b'', (''b'', 9222))], cancelled = []\<rparr>"

definition srv_ac :: server where
  "srv_ac = \<lparr>browser_sessions = [(''a'', session_a), (''c'', session_c)],
             monitoring_tasks = [(''a'', (''a'', 9222)), (''c'', (''c'', 9223))], cancelled = []\<rparr>"

section \<open>The port allocator scans 9222 to 9322 upwards\<close>

lemma scan_ports_Some:
  "scan_ports b ps = Some p \<Longrightarrow>
     \<exists>qs rs. ps = qs @ p # rs \<and> b p \<and> (\<forall>q \<in> set qs. \<not> b q)"
proof (induction ps)
  case Nil
  then show ?case by simp
next
  case (Cons a ps)
  show ?case
  proof (cases "b a")
    case True
    with Cons.prems have "a = p" by simp
    with True have "a # ps = [] @ p # ps \<and> b p \<and> (\<forall>q \<in> set []. \<not> b q)" by simp
    then show ?thesis by blast
  next
    case False
    with Cons.prems have "scan_ports b ps = Some p" by simp
    from Cons.IH [OF this] obtain qs rs
      where "ps = qs @ p # rs" "b p" "\<forall>q \<in> set qs. \<not> b q" by blast
    with False have "a # ps = (a # qs) @ p # rs \<and> b p \<and> (\<forall>q \<in> set (a # qs). \<not> b q)"
      by simp
    then show ?thesis by blast
  qed
qed

lemma scan_ports_None: "scan_ports b ps = None \<longleftrightarrow> (\<forall>q \<in> set ps. \<not> b q)"
  by (induction ps) auto

lemma scan_ports_upt:
  assumes "scan_ports b [lo ..< hi] = Some p"
  shows "lo \<le> p \<and> p < hi \<and> b p \<and> (\<forall>q. lo \<le> q \<and> q < p \<longrightarrow> \<not> b q)"
proof -
  from scan_ports_Some [OF assms] obtain qs rs
    where split: "[lo ..< hi] = qs @ p # rs" and bp: "b p" and no: "\<forall>q \<in> set qs. \<not> b q"
    by blast
  have mem: "p \<in> set [lo ..< hi]" by (simp add: split)
  have srt: "sorted (qs @ p # rs)" and dst: "distinct (qs @ p # rs)"
    using split [symmetric] by simp_all
  have below: "q \<in> set qs" if "lo \<le> q" "q < p" for q
  proof -
    from that mem have "q \<in> set [lo ..< hi]" by simp
    then have "q \<in> set qs \<or> q = p \<or> q \<in> set rs" by (auto simp: split)
    moreover have "q \<noteq> p" using that by simp
    moreover have "q \<notin> set rs"
    proof
      assume "q \<in> set rs"
      with srt have "p \<le> q" by (simp add: sorted_append)
      with that show False by simp
    qed
    ultimately show ?thesis by blast
  qed
  from mem bp no below show ?thesis by auto
qed

lemma scan_ports_first:
  "lo \<le> p \<Longrightarrow> p < hi \<Longrightarrow> b p \<Longrightarrow> (\<forall>q. lo \<le> q \<and> q < p \<longrightarrow> \<not> b q) \<Longrightarrow>
     scan_ports b [lo ..< hi] = Some p"
proof (induction "p - lo" arbitrary: lo)
  case 0
  then have "lo = p" by simp
  with 0 have "[lo ..< hi] = p # [Suc p ..< hi]" by (simp add: upt_conv_Cons)
  with 0 show ?case by simp
next
  case (Suc n)
  then have lt: "lo < p" by simp
  with Suc.prems have nb: "\<not> b lo" by simp
  from lt Suc.prems have "[lo ..< hi] = lo # [Suc lo ..< hi]" by (simp add: upt_conv_Cons)
  moreover have "scan_ports b [Suc lo ..< hi] = Some p"
  proof (rule Suc.hyps(1))
    show "n = p - Suc lo" using Suc.hyps(2) by simp
    show "Suc lo \<le> p" using lt by simp
    show "p < hi" by fact
    show "b p" by fact
    show "\<forall>q. Suc lo \<le> q \<and> q < p \<longrightarrow> \<not> b q" using Suc.prems(4) by simp
  qed
  ultimately show ?case using nb by simp
qed

lemma find_free_port_first:
  assumes "lo \<le> p" "p \<le> hi" "b p" "\<forall>q. lo \<le> q \<and> q < p \<longrightarrow> \<not> b q"
  shows "find_free_port b lo hi = Inr p"
proof -
  have "p < hi + 1" using assms(2) by simp
  with assms have "scan_ports b [lo ..< hi + 1] = Some p"
    by (simp only: scan_ports_first)
  then show ?thesis by (simp only: find_free_port_def option.case)
qed

lemma str_nat_9222: "str_nat 9222 = ''9222''" by (simp add: str_nat.simps digit_char_def)
lemma str_nat_9322: "str_nat 9322 = ''9322''" by (simp add: str_nat.simps digit_char_def)

lemma find_free_port_cases:
  "(case find_free_port b 9222 9322 of
      Inr p \<Rightarrow> 9222 \<le> p \<and> p \<le> 9322 \<and> b p \<and> (\<forall>q. 9222 \<le> q \<and> q < p \<longrightarrow> \<not> b q)
    | Inl e \<Rightarrow> e = IOError ''No free ports in range 9222-9322''
               \<and> (\<forall>q. 9222 \<le> q \<and> q \<le> 9322 \<longrightarrow> \<not> b q))"
proof (cases "scan_ports b [9222 ..< 9322 + 1]")
  case None
  then have "\<forall>q \<in> set [9222 ..< 9322 + 1]. \<not> b q" by (simp only: scan_ports_None)
  then have "\<forall>q \<in> {9222 ..< 9322 + 1}. \<not> b q" by (simp only: set_upt)
  then have no: "\<forall>q. 9222 \<le> q \<and> q \<le> 9322 \<longrightarrow> \<not> b q" by auto
  have "find_free_port b 9222 9322 = Inl (IOError ''No free ports in range 9222-9322'')"
    by (simp only: find_free_port_def None option.case append.simps str_nat_9222 str_nat_9322)
  with no show ?thesis by simp
next
  case (Some p)
  from scan_ports_upt [OF Some] have "9222 \<le> p \<and> p \<le> 9322 \<and> b p \<and> (\<forall>q. 9222 \<le> q \<and> q < p \<longrightarrow> \<not> b q)"
    by auto
  moreover have "find_free_port b 9222 9322 = Inr p" 
    by (simp only: find_free_port_def Some option.case)
  ultimately show ?thesis by simp
qed

lemma find_free_port_Inr:
  "find_free_port b 9222 9322 = Inr p \<Longrightarrow>
     9222 \<le> p \<and> p \<le> 9322 \<and> b p \<and> (\<forall>q. 9222 \<le> q \<and> q < p \<longrightarrow> \<not> b q)"
  using find_free_port_cases [of b] by simp

lemma find_free_port_Inl:
  "find_free_port b 9222 9322 = Inl e \<Longrightarrow>
     e = IOError ''No free ports in range 9222-9322'' \<and> (\<forall>q. 9222 \<le> q \<and> q \<le> 9322 \<longrightarrow> \<not> b q)"
  using find_free_port_cases [of b] by simp

lemma find_free_port_none:
  assumes "\<forall>q. 9222 \<le> q \<and> q \<le> 9322 \<longrightarrow> \<not> b q"
  shows "find_free_port b 9222 9322 = Inl (IOError ''No free ports in range 9222-9322'')"
proof (cases "find_free_port b 9222 9322")
  case (Inl e)
  with find_free_port_Inl [OF Inl] show ?thesis by simp
next
  case (Inr p)
  from find_free_port_Inr [OF Inr] assms show ?thesis by blast
qed

text \<open>The ways through \<open>create_session\<close>, one lemma each.\<close>

lemma create_session_no_port:
  "find_free_port (can_bind io) 9222 9322 = Inl e \<Longrightarrow>
     create_session io (srv, w) = (Inl e, srv, w)"
  by (simp add: create_session_def create_launch_def)

lemma create_session_popen_fails:
  "find_free_port (can_bind io) 9222 9322 = Inr p \<Longrightarrow> popen io (chrome_cmd w p) = Inl x \<Longrightarrow>
     create_session io (srv, w) = (Inl (HTTPException 500 ''Failed to start browser''), srv, w)"
  by (simp add: create_session_def create_launch_def)

lemma create_session_exited:
  "find_free_port (can_bind io) 9222 9322 = Inr p \<Longrightarrow> popen io (chrome_cmd w p) = Inr c \<Longrightarrow>
   exits_in_settle io \<Longrightarrow>
     create_session io (srv, w) =
       (Inl (HTTPException 500 (unread_output io)), srv,
        w\<lparr>alive := alive w - {c}, zombies := zombies w - {c}\<rparr>)"
  by (simp add: create_session_def create_launch_def create_register_def settle_def
      poll_exited_def reaped_def)

lemma create_session_registered:
  "find_free_port (can_bind io) 9222 9322 = Inr p \<Longrightarrow> popen io (chrome_cmd w p) = Inr c \<Longrightarrow>
   \<not> exits_in_settle io \<Longrightarrow>
     create_session io (srv, w) =
       (Inr \<lparr>resp_session_id = new_uuid io,
             cdp_url = ''ws://'' @ cdp_host w @ '':'' @ str_nat p,
             resp_created_at = now_iso io\<rparr>,
        srv\<lparr>browser_sessions :=
               AList.update (new_uuid io)
                 \<lparr>session_id = new_uuid io,
                  process = \<lparr>pid = c, stdout = Some (unread_output io)\<rparr>,
                  port = p, created_at = now_iso io, events = []\<rparr>
                 (browser_sessions srv),
             monitoring_tasks := AList.update (new_uuid io) (new_uuid io, p) (monitoring_tasks srv)\<rparr>,
        w\<lparr>alive := insert c (alive w)\<rparr>)"
  by (simp add: create_session_def create_launch_def create_register_def settle_def
      poll_exited_def cdp_host_def Let_def)

lemma create_session_Inl:
  assumes "create_session io (srv, w) = (Inl e, srv', w')"
  shows "srv' = srv \<and> alive w' \<subseteq> alive w \<and> zombies w' \<subseteq> zombies w"
proof (cases "find_free_port (can_bind io) 9222 9322")
  case (Inl x)
  from create_session_no_port [OF Inl] assms show ?thesis by simp
next
  case (Inr p)
  show ?thesis
  proof (cases "popen io (chrome_cmd w p)")
    case (Inl x)
    from create_session_popen_fails [OF Inr Inl] assms show ?thesis by simp
  next
    case popen: (Inr c)
    show ?thesis
    proof (cases "exits_in_settle io")
      case True
      from create_session_exited [OF Inr popen True, of srv] assms show ?thesis by auto
    next
      case False
      from create_session_registered [OF Inr popen False, of srv] assms show ?thesis by simp
    qed
  qed
qed

lemma post_sessions_success:
  "create_session io st = (Inr r, st') \<Longrightarrow>
     post_sessions io st = (\<lparr>status = 200, body = SessionBody r\<rparr>, st')"
  by (simp add: post_sessions_def route_status_def)

section \<open>The discovery loop\<close>

lemma discover_shape:
  "discover url att xs =
     (let k = length (takeWhile (\<lambda>i. failed (att i)) xs) in
      (concat (replicate k [Connect url, Sleep 500]) @ (if k < length xs then [Connect url] else []),
       if k < length xs then ends_with (att (xs ! k)) else GaveUp))"
proof (induction xs)
  case Nil
  show ?case by simp
next
  case (Cons i xs)
  show ?case
  proof (cases "att i")
    case (Failed e)
    with Cons.IH show ?thesis by (simp add: Let_def)
  next
    case (Received response)
    then show ?thesis by (simp add: Let_def)
  next
    case NoAnswer
    then show ?thesis by (simp add: Let_def)
  qed
qed

lemma takeWhile_upt_prefix:
  "length (takeWhile P [0 ..< n]) \<le> n \<and> (\<forall>i < length (takeWhile P [0 ..< n]). P i)
   \<and> (length (takeWhile P [0 ..< n]) < n \<longrightarrow> \<not> P (length (takeWhile P [0 ..< n])))"
proof (intro conjI allI impI)
  let ?k = "length (takeWhile P [0 ..< n])"
  show le: "?k \<le> n" using length_takeWhile_le [of P "[0 ..< n]"] by simp
  show "P i" if "i < ?k" for i
  proof -
    from that have "takeWhile P [0 ..< n] ! i \<in> set (takeWhile P [0 ..< n])" by (rule nth_mem)
    then have "P (takeWhile P [0 ..< n] ! i)" by (rule set_takeWhileD [THEN conjunct2])
    with that have "P ([0 ..< n] ! i)" by (simp add: takeWhile_nth)
    moreover from that le have "i < n" by simp
    ultimately show ?thesis by simp
  qed
  show "\<not> P ?k" if "?k < n"
  proof -
    from that have "?k < length [0 ..< n]" by simp
    then have "\<not> P ([0 ..< n] ! ?k)" by (rule nth_length_takeWhile)
    with that show ?thesis by simp
  qed
qed


lemma replicate_pairs_connects:
  "length (filter is_connect (concat (replicate k [Connect u, Sleep d]))) = k"
  by (induction k) simp_all

lemma replicate_pairs_slept:
  "sum_list (map sleep_ms (concat (replicate k [Connect u, Sleep d]))) = d * k"
  by (induction k) simp_all

lemma discovering_shape:
  "\<exists>k \<le> 20. (\<forall>i < k. failed (attempt io i)) \<and> (k < 20 \<longrightarrow> \<not> failed (attempt io k))
     \<and> discovering io p =
         (concat (replicate k [Connect (version_url p), Sleep 500])
            @ (if k < 20 then [Connect (version_url p)] else []),
          if k < 20 then ends_with (attempt io k) else GaveUp)"
proof -
  define k where "k = length (takeWhile (\<lambda>i. failed (attempt io i)) [0 ..< 20])"
  from takeWhile_upt_prefix [of "\<lambda>i. failed (attempt io i)" 20]
  have k: "k \<le> 20" "\<forall>i < k. failed (attempt io i)" "k < 20 \<longrightarrow> \<not> failed (attempt io k)"
    unfolding k_def by blast+
  have "discovering io p =
         (concat (replicate k [Connect (version_url p), Sleep 500])
            @ (if k < 20 then [Connect (version_url p)] else []),
          if k < 20 then ends_with (attempt io ([0 ..< 20] ! k)) else GaveUp)"
    unfolding discovering_def discover_shape [of _ _ "[0 ..< 20]"] Let_def k_def [symmetric]
    by (simp only: length_upt minus_nat.diff_0)
  moreover have "[0 ..< 20] ! k = k" if "k < 20" using that by (simp only: nth_upt add_0)
  ultimately have "discovering io p =
         (concat (replicate k [Connect (version_url p), Sleep 500])
            @ (if k < 20 then [Connect (version_url p)] else []),
          if k < 20 then ends_with (attempt io k) else GaveUp)"
    by (cases "k < 20") simp_all
  with k show ?thesis by blast
qed

lemma discovering_all_fail:
  assumes "\<forall>i < 20. failed (attempt io i)"
  shows "discovering io p = (concat (replicate 20 [Connect (version_url p), Sleep 500]), GaveUp)"
proof -
  from discovering_shape [of io p] obtain k
    where k: "k \<le> 20" "k < 20 \<longrightarrow> \<not> failed (attempt io k)"
      and eq: "discovering io p =
         (concat (replicate k [Connect (version_url p), Sleep 500])
            @ (if k < 20 then [Connect (version_url p)] else []),
          if k < 20 then ends_with (attempt io k) else GaveUp)"
    by blast
  from k assms have "k = 20" by (cases "k < 20") auto
  with eq show ?thesis by (simp only: if_False less_irrefl append_Nil2)
qed

lemma ends_with_not_GaveUp: "ends_with a \<noteq> GaveUp"
  by (cases a) simp_all

lemma monitor_starts_with_discovery:
  "\<exists>more. snd (snd (monitor_browser_session io w sid p reg)) = fst (discovering io p) @ more"
  by (auto simp: monitor_browser_session_def split: prod.splits discovery.splits sum.splits bool.splits)

section \<open>Text replacement\<close>

lemma replace_from_absent: "\<not> occurs_in old s \<Longrightarrow> replace_from old new s = s"
  by (induction s) simp_all

lemma replace_absent: "old \<noteq> [] \<Longrightarrow> \<not> occurs_in old s \<Longrightarrow> replace s old new = s"
  by (simp add: replace_def replace_from_absent)

lemma replace_ws_localhost:
  assumes "\<not> occurs_in ''localhost'' rest"
  shows "replace (''ws://localhost'' @ rest) ''localhost'' new = ''ws://'' @ new @ rest"
  using assms by (simp add: replace_def replace_from_absent)

lemma spec_rewrite_host_ws:
  assumes "rest = [] \<or> hd rest = CHR '':'' \<or> hd rest = CHR ''/''"
  shows "spec_rewrite_host host (''ws://localhost'' @ rest) = ''ws://'' @ host @ rest"
  using assms by (cases rest) (auto simp: spec_rewrite_host_def)

lemma cdp_host_world_cdp: "cdp_host world_cdp = ''browser.example''"
  by (simp add: cdp_host_def world_cdp_def world0_def)

lemma monitor_connects_to:
  assumes "discovering io p = (acts, Found response)" "loads io response = Inr info"
    "debugger_url w info = Inr url"
  shows "\<exists>more. snd (snd (monitor_browser_session io w sid p reg)) = acts @ Connect url # more"
  using assms
  by (auto simp: monitor_browser_session_def split: prod.splits bool.splits)

lemma discovering_io_slow:
  "discovering io_slow 9222 =
       ([Connect ''ws://localhost:9222/json/version'', Sleep 500,
         Connect ''ws://localhost:9222/json/version'', Sleep 500,
         Connect ''ws://localhost:9222/json/version'', Sleep 500,
         Connect ''ws://localhost:9222/json/version''], Found ''info'')"
proof -
  have "[0 ..< 20] = 0 # 1 # 2 # 3 # [4 ..< 20]" by (simp add: upt_conv_Cons)
  then show ?thesis
    by (simp add: discovering_def io_slow_def version_url_def str_nat_9222)
qed

lemma discovering_first_try:
  "attempt io 0 = Received response \<Longrightarrow> discovering io p = ([Connect (version_url p)], Found response)"
proof -
  assume a: "attempt io 0 = Received response"
  have "[0 ..< 20] = 0 # [1 ..< 20]" by (simp add: upt_conv_Cons)
  with a show ?thesis by (simp add: discovering_def)
qed

section \<open>Deleting and shutting down\<close>

lemma map_of_delete_same: "map_of (AList.delete k al) k = None"
  by (simp add: delete_conv')

lemma kill_if_running_frame:
  "environ (kill_if_running w p sg) = environ w
   \<and> alive (kill_if_running w p sg) = alive w
   \<and> zombies (kill_if_running w p sg) = zombies w
   \<and> pid_exists_raises (kill_if_running w p sg) = pid_exists_raises w
   \<and> kill_denied (kill_if_running w p sg) = kill_denied w
   \<and> set (sent w) \<subseteq> set (sent (kill_if_running w p sg))
   \<and> set (sent (kill_if_running w p sg)) \<subseteq> insert (p, sg) (set (sent w))"
  by (auto simp: kill_if_running_def os_kill_def split: sum.splits if_splits)

lemma kill_if_running_sends:
  "p \<in> alive w \<or> p \<in> zombies w \<Longrightarrow> p \<notin> kill_denied w \<Longrightarrow> p \<notin> pid_exists_raises w \<Longrightarrow>
     (p, sg) \<in> set (sent (kill_if_running w p sg))"
  by (auto simp: kill_if_running_def os_kill_def is_process_running_def pid_exists_def
      split: sum.splits if_splits)

lemma delete_session_found:
  assumes "map_of (browser_sessions srv) sid = Some session"
  shows "delete_session sid (srv, w) =
     (Inr (''success'', ''Session '' @ sid @ '' terminated''),
      \<lparr>browser_sessions = AList.delete sid (browser_sessions srv),
       monitoring_tasks = AList.delete sid (monitoring_tasks srv),
       cancelled = (case map_of (monitoring_tasks srv) sid of Some t \<Rightarrow> t # cancelled srv
                    | None \<Rightarrow> cancelled srv)\<rparr>,
      kill_if_running w (pid (process session)) SIGTERM)"
proof (cases "map_of (monitoring_tasks srv) sid")
  case None
  then have "AList.delete sid (monitoring_tasks srv) = monitoring_tasks srv"
    by (simp add: delete_id map_of_eq_None_iff)
  with None assms show ?thesis by (simp add: delete_session_def Let_def)
next
  case (Some t)
  with assms show ?thesis by (simp add: delete_session_def Let_def)
qed

lemma delete_session_missing:
  "map_of (browser_sessions srv) sid = None \<Longrightarrow>
     delete_session sid (srv, w) = (Inl (HTTPException 404 ''Session not found''), srv, w)"
  by (simp add: delete_session_def Let_def)

lemma shutdown_loop_signals:
  "shutdown_loop reg tasks (w, c) = (w', c') \<Longrightarrow>
     alive w' = alive w \<and> zombies w' = zombies w \<and> kill_denied w' = kill_denied w
     \<and> pid_exists_raises w' = pid_exists_raises w
     \<and> set (sent w) \<subseteq> set (sent w')
     \<and> set (sent w') \<subseteq> set (sent w) \<union> (\<lambda>e. (pid (process (snd e)), SIGKILL)) ` set reg
     \<and> (\<forall>e \<in> set reg. (pid (process (snd e)) \<in> alive w \<or> pid (process (snd e)) \<in> zombies w)
            \<and> pid (process (snd e)) \<notin> kill_denied w
            \<and> pid (process (snd e)) \<notin> pid_exists_raises w
          \<longrightarrow> (pid (process (snd e)), SIGKILL) \<in> set (sent w'))"
proof (induction reg arbitrary: w c)
  case Nil
  then show ?case by simp
next
  case (Cons e reg)
  obtain sid session where e: "e = (sid, session)" by (cases e)
  let ?p = "pid (process session)"
  let ?w1 = "kill_if_running w ?p SIGKILL"
  let ?c1 = "case map_of tasks sid of Some t \<Rightarrow> t # c | None \<Rightarrow> c"
  from Cons.prems e have run: "shutdown_loop reg tasks (?w1, ?c1) = (w', c')" by simp
  note ih = Cons.IH [OF run]
  note fr = kill_if_running_frame [of w ?p SIGKILL]
  from ih fr have same: "alive w' = alive w" "zombies w' = zombies w"
    "kill_denied w' = kill_denied w" "pid_exists_raises w' = pid_exists_raises w" by simp_all
  from ih fr have grows: "set (sent w) \<subseteq> set (sent w')" by blast
  from ih have "set (sent w') \<subseteq> set (sent ?w1) \<union> (\<lambda>e. (pid (process (snd e)), SIGKILL)) ` set reg"
    by simp
  with fr have bound: "set (sent w') \<subseteq>
      set (sent w) \<union> (\<lambda>e. (pid (process (snd e)), SIGKILL)) ` set (e # reg)"
    unfolding e by auto
  have head: "(?p, SIGKILL) \<in> set (sent w')"
    if "?p \<in> alive w \<or> ?p \<in> zombies w" "?p \<notin> kill_denied w" "?p \<notin> pid_exists_raises w"
  proof -
    from that have "(?p, SIGKILL) \<in> set (sent ?w1)" by (rule kill_if_running_sends)
    with ih show ?thesis by blast
  qed
  from ih fr have tail: "\<forall>x \<in> set reg. (pid (process (snd x)) \<in> alive w \<or> pid (process (snd x)) \<in> zombies w)
            \<and> pid (process (snd x)) \<notin> kill_denied w
            \<and> pid (process (snd x)) \<notin> pid_exists_raises w
          \<longrightarrow> (pid (process (snd x)), SIGKILL) \<in> set (sent w')" by simp
  from same grows bound head tail e show ?case by simp
qed

section \<open>The drain loop\<close>

lemma map_of_store_event:
  "map_of (store_event sid event reg) k =
     (if k = sid then map_option (\<lambda>s. s\<lparr>events := events s @ [event]\<rparr>) (map_of reg sid)
      else map_of reg k)"
  by (cases "map_of reg sid") (simp_all add: store_event_def update_conv')

lemma store_event_absent: "map_of reg sid = None \<Longrightarrow> store_event sid event reg = reg"
  by (simp add: store_event_def)

lemma drain_absent: "map_of reg sid = None \<Longrightarrow> drain ld sid ts reg = (reg, Returned)"
  by (cases ts) auto

lemma grown_refl: "grown sid reg reg"
  by (simp add: grown_def split: option.splits)

lemma grown_trans: "grown sid a b \<Longrightarrow> grown sid b c \<Longrightarrow> grown sid a c"
  by (auto simp: grown_def split: option.splits)

lemma grown_apply_ext: "\<not> stores_id sid e \<Longrightarrow> grown sid reg (apply_ext e reg)"
  by (cases e) (auto simp: grown_def update_conv' delete_conv' split: option.splits)

lemma grown_apply_exts:
  "\<forall>e \<in> set ext. \<not> stores_id sid e \<Longrightarrow> grown sid reg (apply_exts ext reg)"
proof (induction ext arbitrary: reg)
  case Nil
  show ?case by (simp add: apply_exts_def grown_refl)
next
  case (Cons e ext)
  then have "grown sid reg (apply_ext e reg)" by (simp add: grown_apply_ext)
  moreover from Cons have "grown sid (apply_ext e reg) (apply_exts ext (apply_ext e reg))" by simp
  ultimately show ?case unfolding apply_exts_def fold_simps by (rule grown_trans)
qed

lemma grown_store_event: "grown sid reg (store_event sid event reg)"
  by (auto simp: grown_def map_of_store_event split: option.splits)

lemma drain_grown:
  "\<forall>t \<in> set ts. \<forall>e \<in> set (fst t). \<not> stores_id sid e \<Longrightarrow> grown sid reg (fst (drain ld sid ts reg))"
proof (induction ts arbitrary: reg)
  case Nil
  show ?case by (simp add: grown_refl)
next
  case (Cons t ts)
  obtain ext r where t: "t = (ext, r)" by (cases t)
  from Cons.prems t have ext: "\<forall>e \<in> set ext. \<not> stores_id sid e" by simp
  from Cons.prems have rest: "\<forall>t \<in> set ts. \<forall>e \<in> set (fst t). \<not> stores_id sid e" by simp
  note g1 = grown_apply_exts [OF ext, of reg]
  show ?case
  proof (cases "map_of reg sid = None")
    case True
    then show ?thesis by (simp add: t grown_refl)
  next
    case False
    then have ne: "(map_of reg sid = None) = False" by simp
    show ?thesis
    proof (cases r)
      case (Message m)
      show ?thesis
      proof (cases "ld m")
        case (Inl e)
        with Message g1 show ?thesis by (simp add: t ne)
      next
        case (Inr event)
        from g1 grown_store_event have "grown sid reg (store_event sid event (apply_exts ext reg))"
          by (rule grown_trans)
        moreover note Cons.IH [OF rest, of "store_event sid event (apply_exts ext reg)"]
        ultimately have "grown sid reg (fst (drain ld sid ts (store_event sid event (apply_exts ext reg))))"
          by (rule grown_trans)
        with Message Inr show ?thesis by (simp add: t ne)
      qed
    next
      case Timeout
      from g1 Cons.IH [OF rest, of "apply_exts ext reg"]
      have "grown sid reg (fst (drain ld sid ts (apply_exts ext reg)))" by (rule grown_trans)
      with Timeout show ?thesis by (simp add: t ne)
    next
      case RecvFailed
      with g1 show ?thesis by (simp add: t ne)
    next
      case CancelledError
      with g1 show ?thesis by (simp add: t ne)
    qed
  qed
qed

lemma drain_removed_in_flight:
  assumes "map_of (apply_exts ext reg) sid = None" "map_of reg sid \<noteq> None"
  shows "fst (drain ld sid ((ext, r) # ts) reg) = apply_exts ext reg"
  using assms by (cases r) (auto simp: drain_absent store_event_absent split: sum.splits)

lemma grown_prefix:
  "grown sid reg reg' \<Longrightarrow> map_of reg' sid = Some s' \<Longrightarrow>
     \<exists>s. map_of reg sid = Some s \<and> prefix (events s) (events s')"
  by (auto simp: grown_def split: option.splits)

section \<open>Ports of registered sessions\<close>

lemma create_launch_Inr:
  assumes "create_launch io w = (Inr l, w')"
  shows "can_bind io (l_port l) \<and> 9222 \<le> l_port l \<and> l_port l \<le> 9322"
proof (cases "find_free_port (can_bind io) 9222 9322")
  case (Inl e)
  with assms show ?thesis by (simp add: create_launch_def)
next
  case (Inr p)
  note port = find_free_port_Inr [OF Inr]
  from assms Inr have "l_port l = p"
    by (auto simp: create_launch_def split: sum.splits)
  with port show ?thesis by simp
qed

lemma create_register_sessions:
  assumes "create_register io l (srv, w) = (r, srv', w')"
  shows "browser_sessions srv' =
     (if poll_exited w (l_process l) then browser_sessions srv
      else AList.update (l_session_id l)
             \<lparr>session_id = l_session_id l, process = l_process l, port = l_port l,
              created_at = now_iso io, events = []\<rparr> (browser_sessions srv))"
  using assms by (auto simp: create_register_def Let_def split: if_splits)

lemma delete_session_sessions:
  assumes "delete_session sid (srv, w) = (r, srv', w')"
  shows "browser_sessions srv' = AList.delete sid (browser_sessions srv)"
proof (cases "map_of (browser_sessions srv) sid")
  case None
  then have "AList.delete sid (browser_sessions srv) = browser_sessions srv"
    by (simp add: delete_id map_of_eq_None_iff)
  with delete_session_missing [OF None, of w] assms show ?thesis by simp
next
  case (Some session)
  from delete_session_found [OF Some, of w] assms show ?thesis by auto
qed

lemma shutdown_event_sessions: "browser_sessions (fst (shutdown_event st)) = []"
  by (simp add: shutdown_event_def split: prod.splits)

lemma ports_of_update_subset:
  "set (ports_of (AList.update k s reg)) \<subseteq> insert (port s) (set (ports_of reg))"
  by (induction reg) (auto simp: ports_of_def)

lemma ports_of_update_distinct:
  "distinct (ports_of reg) \<Longrightarrow> port s \<notin> set (ports_of reg) \<Longrightarrow>
     distinct (ports_of (AList.update k s reg))"
proof (induction reg)
  case Nil
  show ?case by (simp add: ports_of_def)
next
  case (Cons e reg)
  show ?case
  proof (cases "fst e = k")
    case True
    with Cons.prems show ?thesis by (simp add: ports_of_def)
  next
    case False
    from Cons.prems have d: "distinct (ports_of reg)" and n: "port s \<notin> set (ports_of reg)"
      and h: "port (snd e) \<notin> set (ports_of reg)" and ne: "port (snd e) \<noteq> port s"
      by (auto simp: ports_of_def)
    from ports_of_update_subset [of k s reg] h ne
    have "port (snd e) \<notin> set (ports_of (AList.update k s reg))" by auto
    with Cons.IH [OF d n] False show ?thesis by (simp add: ports_of_def)
  qed
qed

lemma ports_of_delete_subset: "set (ports_of (AList.delete k reg)) \<subseteq> set (ports_of reg)"
  by (induction reg) (auto simp: ports_of_def)

lemma ports_of_delete_distinct: "distinct (ports_of reg) \<Longrightarrow> distinct (ports_of (AList.delete k reg))"
proof (induction reg)
  case Nil
  show ?case by (simp add: ports_of_def)
next
  case (Cons e reg)
  from Cons.prems have d: "distinct (ports_of reg)" and h: "port (snd e) \<notin> set (ports_of reg)"
    by (auto simp: ports_of_def)
  from h ports_of_delete_subset [of k reg]
  have "port (snd e) \<notin> set (ports_of (AList.delete k reg))" by auto
  with Cons.IH [OF d] show ?case by (simp add: ports_of_def)
qed

lemma ports_of_update_same:
  "map_of reg k = Some s \<Longrightarrow> port s' = port s \<Longrightarrow> ports_of (AList.update k s' reg) = ports_of reg"
  by (induction reg) (auto simp: ports_of_def)

lemma ports_of_store_event: "ports_of (store_event sid event reg) = ports_of reg"
  by (cases "map_of reg sid") (simp_all add: store_event_def ports_of_update_same)

lemma distinct_map_remove1: "distinct (map f xs) \<Longrightarrow> distinct (map f (remove1 x xs))"
proof (induction xs)
  case Nil
  then show ?case by simp
next
  case (Cons a xs)
  from Cons.prems have d: "distinct (map f xs)" and h: "f a \<notin> f ` set xs" by auto
  from h set_remove1_subset [of x xs] have "f a \<notin> f ` set (remove1 x xs)" by auto
  with Cons.IH [OF d] d show ?case by simp
qed

lemma remove1_drops_port:
  "distinct (map f xs) \<Longrightarrow> x \<in> set xs \<Longrightarrow> f x \<notin> set (map f (remove1 x xs))"
proof (induction xs)
  case Nil
  then show ?case by simp
next
  case (Cons a xs)
  show ?case
  proof (cases "x = a")
    case True
    with Cons.prems show ?thesis by auto
  next
    case False
    with Cons.prems have x: "x \<in> set xs" and d: "distinct (map f xs)" and h: "f a \<notin> f ` set xs"
      by auto
    from x have "f x \<in> f ` set xs" by (rule imageI)
    with h have "f x \<noteq> f a" by metis
    with Cons.IH [OF d x] False show ?thesis by simp
  qed
qed

lemma register_keeps_ports_distinct:
  assumes inv: "distinct (ports_of reg @ map l_port pend)" and l: "l \<in> set pend"
    and s: "port s = l_port l"
  shows "distinct (ports_of (AList.update k s reg) @ map l_port (remove1 l pend))"
proof -
  from inv have dr: "distinct (ports_of reg)" and dp: "distinct (map l_port pend)"
    and disj: "set (ports_of reg) \<inter> set (map l_port pend) = {}" by simp_all
  from l have "l_port l \<in> set (map l_port pend)" by simp
  with disj s have fresh: "port s \<notin> set (ports_of reg)" by (simp only:) blast
  have d1: "distinct (ports_of (AList.update k s reg))"
    using dr fresh by (rule ports_of_update_distinct)
  have d2: "distinct (map l_port (remove1 l pend))" using dp by (rule distinct_map_remove1)
  have gone: "l_port l \<notin> set (map l_port (remove1 l pend))" using dp l by (rule remove1_drops_port)
  have sub: "set (map l_port (remove1 l pend)) \<subseteq> set (map l_port pend)"
    using set_remove1_subset [of l pend] by auto
  have "set (ports_of (AList.update k s reg)) \<inter> set (map l_port (remove1 l pend)) = {}"
  proof (rule ccontr)
    assume "set (ports_of (AList.update k s reg)) \<inter> set (map l_port (remove1 l pend)) \<noteq> {}"
    then obtain x where x1: "x \<in> set (ports_of (AList.update k s reg))"
      and x2: "x \<in> set (map l_port (remove1 l pend))" by blast
    from x1 ports_of_update_subset [of k s reg] have "x = port s \<or> x \<in> set (ports_of reg)" by blast
    then show False
    proof
      assume "x = port s"
      with x2 gone s show False by simp
    next
      assume "x \<in> set (ports_of reg)"
      with x2 sub disj show False by blast
    qed
  qed
  with d1 d2 show ?thesis by simp
qed

lemma unregistered_keeps_ports_distinct:
  assumes inv: "distinct (ports_of reg @ map l_port pend)"
  shows "distinct (ports_of reg @ map l_port (remove1 l pend))"
proof -
  from inv have dr: "distinct (ports_of reg)" and dp: "distinct (map l_port pend)"
    and disj: "set (ports_of reg) \<inter> set (map l_port pend) = {}" by simp_all
  have "set (map l_port (remove1 l pend)) \<subseteq> set (map l_port pend)"
    using set_remove1_subset [of l pend] by auto
  with disj have "set (ports_of reg) \<inter> set (map l_port (remove1 l pend)) = {}" by blast
  with dr distinct_map_remove1 [OF dp, of l] show ?thesis by simp
qed

lemma reach_exclusive_ports:
  "reach_exclusive st \<Longrightarrow>
     distinct (ports_of (browser_sessions (fst st)) @ map l_port (snd (snd st)))"
proof (induction rule: reach_exclusive.induct)
  case (reach_init w)
  show ?case by (simp add: ports_of_def)
next
  case (reach_world srv w pend w')
  then show ?case by simp
next
  case (reach_launch srv w pend io l w')
  from create_launch_Inr [OF reach_launch.hyps(3)] have "can_bind io (l_port l)" by simp
  with reach_launch.hyps(2)
  have "l_port l \<notin> set (ports_of (browser_sessions srv) @ map l_port pend)" by blast
  with reach_launch.IH show ?case by simp
next
  case (reach_register srv w pend l io r srv' w')
  from reach_register.IH have inv: "distinct (ports_of (browser_sessions srv) @ map l_port pend)"
    by simp
  show ?case
  proof (cases "poll_exited w (l_process l)")
    case True
    with create_register_sessions [OF reach_register.hyps(3)]
    have "browser_sessions srv' = browser_sessions srv" by simp
    with unregistered_keeps_ports_distinct [OF inv, of l] show ?thesis by simp
  next
    case False
    let ?s = "\<lparr>session_id = l_session_id l, process = l_process l, port = l_port l,
              created_at = now_iso io, events = []\<rparr>"
    from False create_register_sessions [OF reach_register.hyps(3)]
    have "browser_sessions srv' = AList.update (l_session_id l) ?s (browser_sessions srv)" by simp
    moreover have "port ?s = l_port l" by simp
    ultimately show ?thesis
      using register_keeps_ports_distinct [OF inv reach_register.hyps(2), of ?s "l_session_id l"]
      by simp
  qed
next
  case (reach_delete srv w pend sid r srv' w')
  from reach_delete.IH have dr: "distinct (ports_of (browser_sessions srv))"
    and dp: "distinct (map l_port pend)"
    and disj: "set (ports_of (browser_sessions srv)) \<inter> set (map l_port pend) = {}" by simp_all
  from delete_session_sessions [OF reach_delete.hyps(2)]
  have eq: "browser_sessions srv' = AList.delete sid (browser_sessions srv)" .
  from disj ports_of_delete_subset [of sid "browser_sessions srv"]
  have "set (ports_of (AList.delete sid (browser_sessions srv))) \<inter> set (map l_port pend) = {}"
    by blast
  with ports_of_delete_distinct [OF dr, of sid] dp eq show ?case by simp
next
  case (reach_shutdown srv w pend srv' w')
  from shutdown_event_sessions [of "(srv, w)"] reach_shutdown.hyps(2)
  have "browser_sessions srv' = []" by simp
  with reach_shutdown.IH show ?case by (simp add: ports_of_def)
next
  case (reach_relay srv w pend sid event)
  then show ?case by (simp add: ports_of_store_event)
qed

lemma distinct_ports_pairwise:
  assumes "distinct (ports_of reg)" "map_of reg k1 = Some s1" "map_of reg k2 = Some s2" "k1 \<noteq> k2"
  shows "port s1 \<noteq> port s2"
proof -
  from assms(2,3) have m: "(k1, s1) \<in> set reg" "(k2, s2) \<in> set reg" by (auto dest: map_of_SomeD)
  from assms(1) have "inj_on (\<lambda>e. port (snd e)) (set reg)" by (simp add: ports_of_def distinct_map)
  from inj_onD [OF this _ m] assms(4) show ?thesis by auto
qed

section \<open>Concrete runs\<close>

lemma find_free_port_all_free: "find_free_port (\<lambda>p. True) 9222 9322 = Inr 9222"
  by (rule find_free_port_first) simp_all

lemma find_free_port_9222_taken: "find_free_port (\<lambda>p. p \<noteq> 9222) 9222 9322 = Inr 9223"
  by (rule find_free_port_first) auto

lemma launch_a: "create_launch io_a world0 = (Inr launched_a, world_running)"
  by (simp add: create_launch_def io_a_def find_free_port_all_free launched_a_def
      world_running_def world0_def unread_output_def)

lemma launch_b: "create_launch io_b world_running = (Inr launched_b, world_two)"
  by (simp add: create_launch_def io_b_def find_free_port_all_free launched_b_def
      world_two_def world_running_def unread_output_def)

lemma launch_c:
  "create_launch io_c world_running =
     (Inr launched_c, world_running\<lparr>alive := insert 105 (alive world_running)\<rparr>)"
  by (simp add: create_launch_def io_c_def find_free_port_9222_taken launched_c_def
      unread_output_def)

lemma register_a_alone:
  "101 \<in> alive w \<Longrightarrow> fst (snd (create_register io_a launched_a (server0, w))) = srv_a"
  by (simp add: create_register_def poll_exited_def launched_a_def io_a_def server0_def srv_a_def
      session_a_def Let_def)

lemma register_b_after_a:
  "102 \<in> alive w \<Longrightarrow> fst (snd (create_register io_b launched_b (srv_a, w))) = srv_ab"
  by (simp add: create_register_def poll_exited_def launched_b_def io_b_def srv_a_def srv_ab_def
      session_b_def Let_def)

lemma register_c_after_a:
  "105 \<in> alive w \<Longrightarrow> fst (snd (create_register io_c launched_c (srv_a, w))) = srv_ac"
  by (simp add: create_register_def poll_exited_def launched_c_def io_c_def srv_a_def srv_ac_def
      session_c_def Let_def)

lemma create_session_a: "create_session io_a (server0, world0) =
    (Inr \<lparr>resp_session_id = ''a'', cdp_url = ''ws://host.docker.internal:9222'',
          resp_created_at = ''2024-01-01T00:00:00''\<rparr>, srv_a, world_running)"
proof -
  have "create_session io_a (server0, world0) =
      create_register io_a launched_a (server0, settle io_a launched_a world_running)"
    by (simp add: create_session_def launch_a)
  also have "\<dots> = (Inr \<lparr>resp_session_id = ''a'', cdp_url = ''ws://host.docker.internal:9222'',
          resp_created_at = ''2024-01-01T00:00:00''\<rparr>, srv_a, world_running)"
    by (simp add: settle_def create_register_def poll_exited_def launched_a_def io_a_def
        server0_def srv_a_def session_a_def Let_def world_running_def world0_def cdp_host_def
        str_nat_9222)
  finally show ?thesis .
qed

lemma create_session_b_after_a: "create_session io_b (srv_a, world0) =
    (Inr \<lparr>resp_session_id = ''b'', cdp_url = ''ws://host.docker.internal:9222'',
          resp_created_at = ''2024-01-01T00:00:05''\<rparr>, srv_ab, world0\<lparr>alive := {102}\<rparr>)"
  by (simp add: create_session_def create_launch_def find_free_port_all_free settle_def
      create_register_def poll_exited_def io_b_def srv_a_def srv_ab_def session_b_def Let_def
      world0_def cdp_host_def str_nat_9222 unread_output_def)

lemma reach_srv_ac: "reach_exclusive (srv_ac, world0, [])"
proof -
  have r0: "reach_exclusive (server0, world0, [])"
    unfolding server0_def by (rule reach_init)
  have "\<forall>q \<in> set (ports_of (browser_sessions server0) @ map l_port []). \<not> can_bind io_a q"
    by (simp add: server0_def ports_of_def)
  from reach_launch [OF r0 this launch_a]
  have r1: "reach_exclusive (server0, world_running, [launched_a])" .
  let ?x = "create_register io_a launched_a (server0, world_running)"
  have "?x = (fst ?x, fst (snd ?x), snd (snd ?x))" by simp
  from reach_register [OF r1 _ this]
  have "reach_exclusive (fst (snd ?x), snd (snd ?x), remove1 launched_a [launched_a])" by simp
  moreover have "fst (snd ?x) = srv_a"
    by (rule register_a_alone) (simp add: world_running_def)
  ultimately have "reach_exclusive (srv_a, snd (snd ?x), [])" by simp
  then have r2: "reach_exclusive (srv_a, world_running, [])" by (rule reach_world)
  have "\<forall>q \<in> set (ports_of (browser_sessions srv_a) @ map l_port []). \<not> can_bind io_c q"
    by (simp add: srv_a_def ports_of_def session_a_def io_c_def)
  from reach_launch [OF r2 this launch_c]
  have r3: "reach_exclusive
      (srv_a, world_running\<lparr>alive := insert 105 (alive world_running)\<rparr>, [launched_c])" .
  let ?w = "world_running\<lparr>alive := insert 105 (alive world_running)\<rparr>"
  let ?y = "create_register io_c launched_c (srv_a, ?w)"
  have "?y = (fst ?y, fst (snd ?y), snd (snd ?y))" by simp
  from reach_register [OF r3 _ this]
  have "reach_exclusive (fst (snd ?y), snd (snd ?y), remove1 launched_c [launched_c])" by simp
  moreover have "fst (snd ?y) = srv_ac" by (rule register_c_after_a) simp
  ultimately have "reach_exclusive (srv_ac, snd (snd ?y), [])" by simp
  then show ?thesis by (rule reach_world)
qed

section \<open>The properties\<close>

text \<open>
  Claim C1. A call of \<open>POST /sessions\<close> in which the port scan, the launch and the
  liveness check succeed is answered with the body \<open>session_id\<close>, \<open>cdp_url\<close>,
  \<open>created_at\<close>, but with status 200, and the client of the same repository, which
  takes every status but 201 for a failure, reports that no session was created.
\<close>

theorem post_sessions_answers_200:
  "create_session io_a (server0, world0) =
     (Inr \<lparr>resp_session_id = ''a'', cdp_url = ''ws://host.docker.internal:9222'',
           resp_created_at = ''2024-01-01T00:00:00''\<rparr>, srv_a, world_running)
   \<and> post_sessions io_a (server0, world0) =
     (\<lparr>status = 200,
       body = SessionBody \<lparr>resp_session_id = ''a'', cdp_url = ''ws://host.docker.internal:9222'',
                           resp_created_at = ''2024-01-01T00:00:00''\<rparr>\<rparr>, srv_a, world_running)
   \<and> client_create_session (fst (post_sessions io_a (server0, world0))) = False"
proof -
  note run = create_session_a
  from post_sessions_success [OF run] run show ?thesis
    by (simp add: client_create_session_def)
qed

text \<open>
  Claim C2, on the code. When \<open>create_session\<close> fails, because no port of the range
  binds or because the child has exited when it is probed after the settle delay, it
  raises: \<open>IOError\<close> in the first case, \<open>HTTPException\<close> 500 in the second. The
  two dictionaries are as before, and no process is left that was not there before:
  the child that was started neither runs nor stays in the process table. The detail
  of the second error is what \<open>process.stdout.read()\<close> still finds in the pipe: the
  child's output without what the logging thread has taken of it.
\<close>

theorem create_session_failure_leaves_nothing:
  "((\<forall>q. 9222 \<le> q \<and> q \<le> 9322 \<longrightarrow> \<not> can_bind io q) \<longrightarrow>
      create_session io (srv, w) = (Inl (IOError ''No free ports in range 9222-9322''), srv, w))
   \<and> (\<forall>p c. find_free_port (can_bind io) 9222 9322 = Inr p \<and> popen io (chrome_cmd w p) = Inr c
              \<and> exits_in_settle io \<longrightarrow>
        (\<exists>w'. create_session io (srv, w) =
                (Inl (HTTPException 500 (drop (log_taken io) (child_output io))), srv, w')
              \<and> c \<notin> alive w' \<and> c \<notin> zombies w'
              \<and> alive w' \<subseteq> alive w \<and> zombies w' \<subseteq> zombies w))
   \<and> (\<forall>e srv' w'. create_session io (srv, w) = (Inl e, srv', w') \<longrightarrow>
        srv' = srv \<and> alive w' \<subseteq> alive w \<and> zombies w' \<subseteq> zombies w)"
proof (intro conjI allI impI)
  assume "\<forall>q. 9222 \<le> q \<and> q \<le> 9322 \<longrightarrow> \<not> can_bind io q"
  then have "find_free_port (can_bind io) 9222 9322 = Inl (IOError ''No free ports in range 9222-9322'')"
    by (rule find_free_port_none)
  then show "create_session io (srv, w) = (Inl (IOError ''No free ports in range 9222-9322''), srv, w)"
    by (rule create_session_no_port)
next
  fix p c
  let ?w' = "w\<lparr>alive := alive w - {c}, zombies := zombies w - {c}\<rparr>"
  assume h: "find_free_port (can_bind io) 9222 9322 = Inr p \<and> popen io (chrome_cmd w p) = Inr c
              \<and> exits_in_settle io"
  then have "create_session io (srv, w) =
       (Inl (HTTPException 500 (drop (log_taken io) (child_output io))), srv, ?w')"
    by (simp add: create_session_exited unread_output_def)
  moreover have "c \<notin> alive ?w'" and "c \<notin> zombies ?w'"
    and "alive ?w' \<subseteq> alive w" and "zombies ?w' \<subseteq> zombies w" by auto
  ultimately show "\<exists>w'. create_session io (srv, w) =
                (Inl (HTTPException 500 (drop (log_taken io) (child_output io))), srv, w')
              \<and> c \<notin> alive w' \<and> c \<notin> zombies w'
              \<and> alive w' \<subseteq> alive w \<and> zombies w' \<subseteq> zombies w"
    by blast
next
  fix e srv' w'
  assume "create_session io (srv, w) = (Inl e, srv', w')"
  then show "srv' = srv" and "alive w' \<subseteq> alive w" and "zombies w' \<subseteq> zombies w"
    using create_session_Inl by blast+
qed

theorem create_session_failure_leaves_nothing_witness:
  "create_session io_none (server0, world0) =
     (Inl (IOError ''No free ports in range 9222-9322''), server0, world0)
   \<and> (\<exists>w'. create_session io_exit (server0, world0) = (Inl (HTTPException 500 []), server0, w')
           \<and> 104 \<notin> alive w' \<and> 104 \<notin> zombies w'
           \<and> alive w' \<subseteq> alive world0 \<and> zombies w' \<subseteq> zombies world0)"
proof
  have "\<forall>q. 9222 \<le> q \<and> q \<le> 9322 \<longrightarrow> \<not> can_bind io_none q" by (simp add: io_none_def)
  with create_session_failure_leaves_nothing [of io_none server0 world0]
  show "create_session io_none (server0, world0) =
     (Inl (IOError ''No free ports in range 9222-9322''), server0, world0)"
    by blast
next
  have port: "find_free_port (can_bind io_exit) 9222 9322 = Inr 9222"
    by (rule find_free_port_first) (simp_all add: io_exit_def)
  have "popen io_exit (chrome_cmd world0 9222) = Inr 104" and "exits_in_settle io_exit"
    by (simp_all add: io_exit_def)
  with port have h: "find_free_port (can_bind io_exit) 9222 9322 = Inr 9222
      \<and> popen io_exit (chrome_cmd world0 9222) = Inr 104 \<and> exits_in_settle io_exit" by simp
  have d: "drop (log_taken io_exit) (child_output io_exit) = []" by (simp add: io_exit_def)
  from create_session_failure_leaves_nothing [of io_exit server0 world0,
      THEN conjunct2, THEN conjunct1, rule_format, OF h]
  show "\<exists>w'. create_session io_exit (server0, world0) = (Inl (HTTPException 500 []), server0, w')
           \<and> 104 \<notin> alive w' \<and> 104 \<notin> zombies w'
           \<and> alive w' \<subseteq> alive world0 \<and> zombies w' \<subseteq> zombies world0"
    unfolding d .
qed

text \<open>
  Claim C2, the detail of the error. The child writes \<open>chrome: no usable sandbox\<close>
  and exits within the settle delay; the logging thread, which reads the pipe from
  the start, has taken all 25 characters when the call probes the child. The call
  builds the detail from \<open>process.stdout.read()\<close>, which returns the empty text:
  the error does not carry the output of the process.
\<close>

theorem launch_failed_detail_counterexample:
  "child_output io_exit = ''chrome: no usable sandbox''
   \<and> log_taken io_exit = length (child_output io_exit)
   \<and> create_session io_exit (server0, world0) = (Inl (HTTPException 500 []), server0, world0)"
proof (intro conjI)
  show "child_output io_exit = ''chrome: no usable sandbox''" by (simp add: io_exit_def)
  show "log_taken io_exit = length (child_output io_exit)" by (simp add: io_exit_def)
  have port: "find_free_port (can_bind io_exit) 9222 9322 = Inr 9222"
    by (rule find_free_port_first) (simp_all add: io_exit_def)
  have "popen io_exit (chrome_cmd world0 9222) = Inr 104" and "exits_in_settle io_exit"
    by (simp_all add: io_exit_def)
  from create_session_exited [OF port this, of server0]
  show "create_session io_exit (server0, world0) = (Inl (HTTPException 500 []), server0, world0)"
    by (simp add: unread_output_def io_exit_def world0_def)
qed

text \<open>
  Claim C3. \<open>find_free_port\<close> scans the ports 9222 to 9322 upwards: it returns the
  first port on which the bind succeeds, and raises when no port of the range binds.
  So whenever \<open>create_session\<close> succeeds, the returned \<open>cdp_url\<close> is
  \<open>ws://\<close>, the host, a colon, and the scanned port, which lies in that range;
  the host is the value of \<open>CDP_HOST\<close> in \<open>os.environ\<close>, and
  \<open>host.docker.internal\<close> when that variable is not set.
\<close>

theorem find_free_port_scans_range:
  "(case find_free_port b 9222 9322 of
      Inr p \<Rightarrow> 9222 \<le> p \<and> p \<le> 9322 \<and> b p \<and> (\<forall>q. 9222 \<le> q \<and> q < p \<longrightarrow> \<not> b q)
    | Inl e \<Rightarrow> e = IOError ''No free ports in range 9222-9322''
               \<and> (\<forall>q. 9222 \<le> q \<and> q \<le> 9322 \<longrightarrow> \<not> b q))
   \<and> (\<forall>r srv' w'. create_session io (srv, w) = (Inr r, srv', w') \<longrightarrow>
        (\<exists>p. 9222 \<le> p \<and> p \<le> 9322 \<and> find_free_port (can_bind io) 9222 9322 = Inr p
             \<and> cdp_url r =
                 ''ws://'' @ (case environ w ''CDP_HOST'' of Some h \<Rightarrow> h
                              | None \<Rightarrow> ''host.docker.internal'')
                   @ '':'' @ str_nat p))"
proof (intro conjI allI impI)
  show "case find_free_port b 9222 9322 of
      Inr p \<Rightarrow> 9222 \<le> p \<and> p \<le> 9322 \<and> b p \<and> (\<forall>q. 9222 \<le> q \<and> q < p \<longrightarrow> \<not> b q)
    | Inl e \<Rightarrow> e = IOError ''No free ports in range 9222-9322''
               \<and> (\<forall>q. 9222 \<le> q \<and> q \<le> 9322 \<longrightarrow> \<not> b q)"
    by (rule find_free_port_cases)
next
  fix r srv' w'
  assume ok: "create_session io (srv, w) = (Inr r, srv', w')"
  let ?host = "case environ w ''CDP_HOST'' of Some h \<Rightarrow> h | None \<Rightarrow> ''host.docker.internal''"
  show "\<exists>p. 9222 \<le> p \<and> p \<le> 9322 \<and> find_free_port (can_bind io) 9222 9322 = Inr p
             \<and> cdp_url r = ''ws://'' @ ?host @ '':'' @ str_nat p"
  proof (cases "find_free_port (can_bind io) 9222 9322")
    case (Inl e)
    from create_session_no_port [OF Inl] ok show ?thesis by simp
  next
    case (Inr p)
    note port = find_free_port_Inr [OF Inr]
    show ?thesis
    proof (cases "popen io (chrome_cmd w p)")
      case (Inl x)
      from create_session_popen_fails [OF Inr Inl] ok show ?thesis by simp
    next
      case popen: (Inr c)
      show ?thesis
      proof (cases "exits_in_settle io")
        case True
        from create_session_exited [OF Inr popen True] ok show ?thesis by simp
      next
        case False
        from create_session_registered [OF Inr popen False, of srv] ok
        have "cdp_url r = ''ws://'' @ cdp_host w @ '':'' @ str_nat p" by auto
        then have "cdp_url r = ''ws://'' @ ?host @ '':'' @ str_nat p"
          by (simp only: cdp_host_def)
        with port Inr show ?thesis by blast
      qed
    qed
  qed
qed

theorem find_free_port_scans_range_witness:
  "find_free_port (\<lambda>p. 9230 \<le> p) 9222 9322 = Inr 9230
   \<and> find_free_port (\<lambda>p. False) 9222 9322 = Inl (IOError ''No free ports in range 9222-9322'')
   \<and> environ world_cdp ''CDP_HOST'' = Some ''browser.example''
   \<and> (\<exists>r srv' w'. create_session io_a (server0, world_cdp) = (Inr r, srv', w')
        \<and> cdp_url r = ''ws://browser.example:9222'')
   \<and> environ world0 ''CDP_HOST'' = None
   \<and> (\<exists>r srv' w'. create_session io_a (server0, world0) = (Inr r, srv', w')
        \<and> cdp_url r = ''ws://host.docker.internal:9222'')"
proof (intro conjI)
  note scan = find_free_port_scans_range [of "\<lambda>p. 9230 \<le> p" io_a server0 world0, THEN conjunct1]
  show "find_free_port (\<lambda>p. 9230 \<le> p) 9222 9322 = Inr 9230"
  proof (cases "find_free_port (\<lambda>p. 9230 \<le> p) 9222 9322")
    case (Inl e)
    with scan have "\<forall>q::nat. 9222 \<le> q \<and> q \<le> 9322 \<longrightarrow> \<not> 9230 \<le> q" by simp
    from this [rule_format, of 9230] show ?thesis by simp
  next
    case (Inr p)
    with scan have ge: "9230 \<le> p" and first: "\<forall>q. 9222 \<le> q \<and> q < p \<longrightarrow> \<not> 9230 \<le> q"
      by simp_all
    have "p = 9230"
    proof (rule ccontr)
      assume "p \<noteq> 9230"
      with ge have "9230 < p" by simp
      with first [rule_format, of 9230] show False by simp
    qed
    with Inr show ?thesis by simp
  qed
next
  note none = find_free_port_scans_range [of "\<lambda>p. False" io_a server0 world0, THEN conjunct1]
  show "find_free_port (\<lambda>p. False) 9222 9322 = Inl (IOError ''No free ports in range 9222-9322'')"
  proof (cases "find_free_port (\<lambda>p. False) 9222 9322")
    case (Inl e)
    with none show ?thesis by simp
  next
    case (Inr p)
    with none show ?thesis by simp
  qed
next
  show set: "environ world_cdp ''CDP_HOST'' = Some ''browser.example''"
    by (simp add: world_cdp_def world0_def)
  have port: "find_free_port (can_bind io_a) 9222 9322 = Inr 9222"
    by (rule find_free_port_first) (simp_all add: io_a_def)
  obtain r srv' w' where run: "create_session io_a (server0, world_cdp) = (Inr r, srv', w')"
    using create_session_registered [OF port, of world_cdp 101 server0] by (simp add: io_a_def)
  with find_free_port_scans_range [of "\<lambda>p. False" io_a server0 world_cdp, THEN conjunct2]
  obtain p where "find_free_port (can_bind io_a) 9222 9322 = Inr p"
    and "cdp_url r = ''ws://'' @ (case environ world_cdp ''CDP_HOST'' of Some h \<Rightarrow> h
                              | None \<Rightarrow> ''host.docker.internal'') @ '':'' @ str_nat p" by blast
  with port have "cdp_url r = ''ws://browser.example:9222''"
    by (simp add: set str_nat_9222)
  with run show "\<exists>r srv' w'. create_session io_a (server0, world_cdp) = (Inr r, srv', w')
        \<and> cdp_url r = ''ws://browser.example:9222''"
    by blast
next
  show unset: "environ world0 ''CDP_HOST'' = None" by (simp add: world0_def)
  have port: "find_free_port (can_bind io_a) 9222 9322 = Inr 9222"
    by (rule find_free_port_first) (simp_all add: io_a_def)
  obtain r srv' w' where run: "create_session io_a (server0, world0) = (Inr r, srv', w')"
    using create_session_registered [OF port, of world0 101 server0] by (simp add: io_a_def)
  with find_free_port_scans_range [of "\<lambda>p. False" io_a server0 world0, THEN conjunct2]
  obtain p where "find_free_port (can_bind io_a) 9222 9322 = Inr p"
    and "cdp_url r = ''ws://'' @ (case environ world0 ''CDP_HOST'' of Some h \<Rightarrow> h
                              | None \<Rightarrow> ''host.docker.internal'') @ '':'' @ str_nat p" by blast
  with port have "cdp_url r = ''ws://host.docker.internal:9222''"
    by (simp add: unset str_nat_9222)
  with run show "\<exists>r srv' w'. create_session io_a (server0, world0) = (Inr r, srv', w')
        \<and> cdp_url r = ''ws://host.docker.internal:9222''"
    by blast
qed

text \<open>
  Claim C4. The discovery phase of a relay task makes at most 20 connection attempts
  on the version endpoint and sleeps 0.5 seconds after each failed one: with \<open>k\<close>
  the number of attempts that fail before the first one that does not, its actions
  are \<open>k\<close> times a connect and a sleep of 500 ms, then one more connect if
  \<open>k < 20\<close>; it gives up exactly when \<open>k = 20\<close>. So it never sleeps more than 10
  seconds in all, and these actions are the first ones of the task. (The time spent
  inside an attempt is not part of the model; an attempt whose \<open>recv\<close> is never
  answered leaves the task waiting there.)
\<close>

theorem discovery_at_most_20_attempts:
  "\<exists>k \<le> 20. (\<forall>i < k. failed (attempt io i)) \<and> (k < 20 \<longrightarrow> \<not> failed (attempt io k))
     \<and> discovering io p =
         (concat (replicate k [Connect (version_url p), Sleep 500])
            @ (if k < 20 then [Connect (version_url p)] else []),
          if k < 20 then ends_with (attempt io k) else GaveUp)
     \<and> (snd (discovering io p) = GaveUp) = (k = 20)
     \<and> length (filter is_connect (fst (discovering io p))) = (if k < 20 then k + 1 else 20)
     \<and> length (filter is_connect (fst (discovering io p))) \<le> 20
     \<and> sum_list (map sleep_ms (fst (discovering io p))) = 500 * k
     \<and> sum_list (map sleep_ms (fst (discovering io p))) \<le> 10000
     \<and> (\<exists>more. snd (snd (monitor_browser_session io w sid p reg)) = fst (discovering io p) @ more)"
proof -
  from discovering_shape [of io p] obtain k
    where k: "k \<le> 20" "\<forall>i < k. failed (attempt io i)" "k < 20 \<longrightarrow> \<not> failed (attempt io k)"
      and eq: "discovering io p =
         (concat (replicate k [Connect (version_url p), Sleep 500])
            @ (if k < 20 then [Connect (version_url p)] else []),
          if k < 20 then ends_with (attempt io k) else GaveUp)"
    by blast
  have gave_up: "(snd (discovering io p) = GaveUp) = (k = 20)"
    using k(1) by (auto simp: eq ends_with_not_GaveUp)
  have connects: "length (filter is_connect (fst (discovering io p))) = (if k < 20 then k + 1 else 20)"
    using k(1) by (simp add: eq replicate_pairs_connects)
  then have connects_le: "length (filter is_connect (fst (discovering io p))) \<le> 20"
    using k(1) by (simp split: if_splits)
  have slept: "sum_list (map sleep_ms (fst (discovering io p))) = 500 * k"
    by (simp add: eq replicate_pairs_slept)
  then have slept_le: "sum_list (map sleep_ms (fst (discovering io p))) \<le> 10000"
    using k(1) by simp
  from k eq gave_up connects connects_le slept slept_le
    monitor_starts_with_discovery [of io w sid p reg]
  show ?thesis by blast
qed

theorem discovery_at_most_20_attempts_witness:
  "discovering io_dead 9222 =
     (concat (replicate 20 [Connect ''ws://localhost:9222/json/version'', Sleep 500]), GaveUp)
   \<and> length (filter is_connect (fst (discovering io_dead 9222))) = 20
   \<and> sum_list (map sleep_ms (fst (discovering io_dead 9222))) = 10000
   \<and> discovering io_slow 9222 =
       ([Connect ''ws://localhost:9222/json/version'', Sleep 500,
         Connect ''ws://localhost:9222/json/version'', Sleep 500,
         Connect ''ws://localhost:9222/json/version'', Sleep 500,
         Connect ''ws://localhost:9222/json/version''], Found ''info'')
   \<and> length (filter is_connect (fst (discovering io_slow 9222))) = 4
   \<and> sum_list (map sleep_ms (fst (discovering io_slow 9222))) = 1500"
proof -
  have url: "version_url 9222 = ''ws://localhost:9222/json/version''"
    by (simp add: version_url_def str_nat_9222)
  from discovery_at_most_20_attempts [of io_dead 9222 world0 "''a''" "[]"] obtain k
    where k: "k \<le> 20" "k < 20 \<longrightarrow> \<not> failed (attempt io_dead k)"
      and eq: "discovering io_dead 9222 =
         (concat (replicate k [Connect (version_url 9222), Sleep 500])
            @ (if k < 20 then [Connect (version_url 9222)] else []),
          if k < 20 then ends_with (attempt io_dead k) else GaveUp)"
      and n: "length (filter is_connect (fst (discovering io_dead 9222))) = (if k < 20 then k + 1 else 20)"
      and t: "sum_list (map sleep_ms (fst (discovering io_dead 9222))) = 500 * k"
    by blast
  have "failed (attempt io_dead k)" by (simp add: io_dead_def)
  with k have k20: "k = 20" by (cases "k < 20") auto
  have dead: "discovering io_dead 9222 =
      (concat (replicate 20 [Connect ''ws://localhost:9222/json/version'', Sleep 500]), GaveUp)"
    using eq unfolding k20 url by (simp only: if_False less_irrefl append_Nil2)
  from discovery_at_most_20_attempts [of io_slow 9222 world0 "''a''" "[]"] obtain j
    where j: "\<forall>i < j. failed (attempt io_slow i)" "j < 20 \<longrightarrow> \<not> failed (attempt io_slow j)"
      and eqj: "discovering io_slow 9222 =
         (concat (replicate j [Connect (version_url 9222), Sleep 500])
            @ (if j < 20 then [Connect (version_url 9222)] else []),
          if j < 20 then ends_with (attempt io_slow j) else GaveUp)"
      and nj: "length (filter is_connect (fst (discovering io_slow 9222))) = (if j < 20 then j + 1 else 20)"
      and tj: "sum_list (map sleep_ms (fst (discovering io_slow 9222))) = 500 * j"
    by blast
  have "\<not> 3 < j"
  proof
    assume "3 < j"
    with j(1) have "failed (attempt io_slow 3)" by blast
    then show False by (simp add: io_slow_def)
  qed
  moreover have "\<not> j < 3"
  proof
    assume lt: "j < 3"
    with j(2) have "\<not> failed (attempt io_slow j)" by simp
    with lt show False by (simp add: io_slow_def)
  qed
  ultimately have j3: "j = 3" by simp
  have slow: "discovering io_slow 9222 =
       ([Connect ''ws://localhost:9222/json/version'', Sleep 500,
         Connect ''ws://localhost:9222/json/version'', Sleep 500,
         Connect ''ws://localhost:9222/json/version'', Sleep 500,
         Connect ''ws://localhost:9222/json/version''], Found ''info'')"
    using eqj unfolding j3 url by (simp add: io_slow_def numeral_3_eq_3)
  from dead slow n t nj tj show ?thesis unfolding k20 j3 by simp
qed

text \<open>
  Claim C5. When every one of the 20 discovery attempts fails, the relay task logs
  the failure and returns: it raises nothing and leaves the registry exactly as it
  was, so the session it belongs to stays registered.
\<close>

theorem relay_gives_up_registry_untouched:
  "(\<forall>i < 20. failed (attempt io i)) \<Longrightarrow>
     monitor_browser_session io w sid p reg =
       (reg, Returned,
        concat (replicate 20 [Connect (version_url p), Sleep 500])
          @ [LogError (''Could not connect to browser on port '' @ str_nat p)])"
  by (simp add: monitor_browser_session_def discovering_all_fail)

theorem relay_gives_up_registry_untouched_witness:
  "monitor_browser_session io_dead world0 ''a'' 9222 [(''a'', session_a)] =
       ([(''a'', session_a)], Returned,
        concat (replicate 20 [Connect ''ws://localhost:9222/json/version'', Sleep 500])
          @ [LogError ''Could not connect to browser on port 9222''])
   \<and> map_of (fst (monitor_browser_session io_dead world0 ''a'' 9222 [(''a'', session_a)])) ''a''
       = Some session_a"
proof -
  have fails: "\<forall>i < 20. failed (attempt io_dead i)" by (simp add: io_dead_def)
  from relay_gives_up_registry_untouched [OF fails, of world0 "''a''" 9222 "[(''a'', session_a)]"]
  have "monitor_browser_session io_dead world0 ''a'' 9222 [(''a'', session_a)] =
       ([(''a'', session_a)], Returned,
        concat (replicate 20 [Connect ''ws://localhost:9222/json/version'', Sleep 500])
          @ [LogError ''Could not connect to browser on port 9222''])"
    by (simp only: version_url_def str_nat_9222 append.simps)
  then show ?thesis by simp
qed

text \<open>
  Claim C6, as the code has it. The relay task takes the \<open>webSocketDebuggerUrl\<close>
  that the browser advertised and connects to that text with every occurrence of
  \<open>localhost\<close> replaced by \<open>CDP_HOST\<close>. For an advertised URL \<open>ws://localhost\<close>
  followed by a port or a path in which \<open>localhost\<close> does not occur again, this
  rewrites the host component to \<open>CDP_HOST\<close> and keeps the rest. An advertised URL
  in which \<open>localhost\<close> does not occur is used as it is.
\<close>

theorem relay_replaces_localhost_text:
  assumes "discovering io p = (acts, Found response)"
    and "loads io response = Inr (JObj items)"
    and "map_of items ''webSocketDebuggerUrl'' = Some (JStr url)"
  shows "(\<exists>more. snd (snd (monitor_browser_session io w sid p reg)) =
            acts @ Connect (replace url ''localhost'' (cdp_host w)) # more)
    \<and> (\<forall>rest. url = ''ws://localhost'' @ rest \<and> \<not> occurs_in ''localhost'' rest
              \<and> (rest = [] \<or> hd rest = CHR '':'' \<or> hd rest = CHR ''/'') \<longrightarrow>
          replace url ''localhost'' (cdp_host w) = ''ws://'' @ cdp_host w @ rest
          \<and> replace url ''localhost'' (cdp_host w) = spec_rewrite_host (cdp_host w) url)
    \<and> (\<not> occurs_in ''localhost'' url \<longrightarrow> replace url ''localhost'' (cdp_host w) = url)"
proof (intro conjI allI impI)
  from assms(3) have "debugger_url w (JObj items) = Inr (replace url ''localhost'' (cdp_host w))"
    by (simp add: debugger_url_def)
  from monitor_connects_to [OF assms(1) assms(2) this]
  show "\<exists>more. snd (snd (monitor_browser_session io w sid p reg)) =
            acts @ Connect (replace url ''localhost'' (cdp_host w)) # more" .
next
  fix rest
  assume h: "url = ''ws://localhost'' @ rest \<and> \<not> occurs_in ''localhost'' rest
              \<and> (rest = [] \<or> hd rest = CHR '':'' \<or> hd rest = CHR ''/'')"
  then show eq: "replace url ''localhost'' (cdp_host w) = ''ws://'' @ cdp_host w @ rest"
    using replace_ws_localhost [of rest "cdp_host w"] by simp
  from h have "spec_rewrite_host (cdp_host w) url = ''ws://'' @ cdp_host w @ rest"
    using spec_rewrite_host_ws [of rest "cdp_host w"] by simp
  with eq show "replace url ''localhost'' (cdp_host w) = spec_rewrite_host (cdp_host w) url"
    by simp
next
  assume "\<not> occurs_in ''localhost'' url"
  then show "replace url ''localhost'' (cdp_host w) = url"
    by (intro replace_absent) simp_all
qed

theorem relay_replaces_localhost_text_witness:
  "(\<exists>more. snd (snd (monitor_browser_session io_slow world_cdp ''a'' 9222 [])) =
       [Connect ''ws://localhost:9222/json/version'', Sleep 500,
        Connect ''ws://localhost:9222/json/version'', Sleep 500,
        Connect ''ws://localhost:9222/json/version'', Sleep 500,
        Connect ''ws://localhost:9222/json/version'']
       @ Connect ''ws://browser.example:9222/devtools/browser/abc'' # more)
   \<and> spec_rewrite_host ''browser.example'' ''ws://localhost:9222/devtools/browser/abc''
       = ''ws://browser.example:9222/devtools/browser/abc''"
proof -
  let ?items = "[(''Browser'', JStr ''HeadlessChrome''),
                 (''webSocketDebuggerUrl'', JStr ''ws://localhost:9222/devtools/browser/abc'')]"
  have l: "loads io_slow ''info'' = Inr (JObj ?items)" by (simp add: io_slow_def)
  have m: "map_of ?items ''webSocketDebuggerUrl'' = Some (JStr ''ws://localhost:9222/devtools/browser/abc'')"
    by simp
  note t = relay_replaces_localhost_text [OF discovering_io_slow l m, of world_cdp "''a''" "[]"]
  have h: "''ws://localhost:9222/devtools/browser/abc'' = ''ws://localhost'' @ '':9222/devtools/browser/abc''
      \<and> \<not> occurs_in ''localhost'' '':9222/devtools/browser/abc''
      \<and> ('':9222/devtools/browser/abc'' = [] \<or> hd '':9222/devtools/browser/abc'' = CHR '':''
           \<or> hd '':9222/devtools/browser/abc'' = CHR ''/'')"
    by simp
  note rs = t [THEN conjunct2, THEN conjunct1, rule_format, OF h]
  have r: "replace ''ws://localhost:9222/devtools/browser/abc'' ''localhost'' (cdp_host world_cdp)
             = ''ws://browser.example:9222/devtools/browser/abc''"
    using rs [THEN conjunct1] by (simp add: cdp_host_world_cdp)
  have "spec_rewrite_host (cdp_host world_cdp) ''ws://localhost:9222/devtools/browser/abc''
          = replace ''ws://localhost:9222/devtools/browser/abc'' ''localhost'' (cdp_host world_cdp)"
    by (rule rs [THEN conjunct2, symmetric])
  with r have s: "spec_rewrite_host ''browser.example'' ''ws://localhost:9222/devtools/browser/abc''
          = ''ws://browser.example:9222/devtools/browser/abc''"
    by (simp only: cdp_host_world_cdp)
  from t [THEN conjunct1] r
  have "\<exists>more. snd (snd (monitor_browser_session io_slow world_cdp ''a'' 9222 [])) =
       [Connect ''ws://localhost:9222/json/version'', Sleep 500,
        Connect ''ws://localhost:9222/json/version'', Sleep 500,
        Connect ''ws://localhost:9222/json/version'', Sleep 500,
        Connect ''ws://localhost:9222/json/version'']
       @ Connect ''ws://browser.example:9222/devtools/browser/abc'' # more"
    by (simp only:)
  from this s show ?thesis by (rule conjI)
qed

text \<open>
  Claim C6 as it is stated fails. With \<open>CDP_HOST\<close> set to \<open>browser.example\<close>, a
  browser that advertises the loopback address \<open>ws://127.0.0.1:9222/...\<close> is
  connected to at that very address, where rewriting the host component would give
  \<open>ws://browser.example:9222/...\<close>; and in an advertised URL whose path contains
  \<open>localhost\<close> the path is rewritten too.
\<close>

theorem relay_host_rewrite_counterexample:
  "monitor_browser_session io_ip world_cdp ''a'' 9222 [] =
     ([], Returned,
      [Connect ''ws://localhost:9222/json/version'',
       Connect ''ws://127.0.0.1:9222/devtools/browser/abc'',
       Send (enable_command 1 ''Network.enable''), Send (enable_command 2 ''Page.enable''),
       Send (enable_command 3 ''Runtime.enable'')])
   \<and> cdp_host world_cdp = ''browser.example''
   \<and> spec_rewrite_host (cdp_host world_cdp) ''ws://127.0.0.1:9222/devtools/browser/abc''
       = ''ws://browser.example:9222/devtools/browser/abc''
   \<and> debugger_url world_cdp
         (JObj [(''webSocketDebuggerUrl'', JStr ''ws://localhost:9222/devtools/page/localhost-tab'')])
       = Inr ''ws://browser.example:9222/devtools/page/browser.example-tab''
   \<and> spec_rewrite_host (cdp_host world_cdp) ''ws://localhost:9222/devtools/page/localhost-tab''
       = ''ws://browser.example:9222/devtools/page/localhost-tab''"
proof (intro conjI)
  have d: "discovering io_ip 9222 = ([Connect ''ws://localhost:9222/json/version''], Found ''info'')"
    using discovering_first_try [of io_ip "''info''" 9222]
    by (simp add: io_ip_def version_url_def str_nat_9222)
  have u: "debugger_url world_cdp (JObj [(''webSocketDebuggerUrl'',
              JStr ''ws://127.0.0.1:9222/devtools/browser/abc'')])
           = Inr ''ws://127.0.0.1:9222/devtools/browser/abc''"
    by (simp add: debugger_url_def replace_def cdp_host_world_cdp)
  show "monitor_browser_session io_ip world_cdp ''a'' 9222 [] =
     ([], Returned,
      [Connect ''ws://localhost:9222/json/version'',
       Connect ''ws://127.0.0.1:9222/devtools/browser/abc'',
       Send (enable_command 1 ''Network.enable''), Send (enable_command 2 ''Page.enable''),
       Send (enable_command 3 ''Runtime.enable'')])"
    unfolding monitor_browser_session_def d
    by (simp add: io_ip_def u)
  show "cdp_host world_cdp = ''browser.example''" by (rule cdp_host_world_cdp)
  show "spec_rewrite_host (cdp_host world_cdp) ''ws://127.0.0.1:9222/devtools/browser/abc''
       = ''ws://browser.example:9222/devtools/browser/abc''"
    by (simp add: spec_rewrite_host_def cdp_host_world_cdp)
  show "debugger_url world_cdp
         (JObj [(''webSocketDebuggerUrl'', JStr ''ws://localhost:9222/devtools/page/localhost-tab'')])
       = Inr ''ws://browser.example:9222/devtools/page/browser.example-tab''"
    by (simp add: debugger_url_def replace_def cdp_host_world_cdp)
  show "spec_rewrite_host (cdp_host world_cdp) ''ws://localhost:9222/devtools/page/localhost-tab''
       = ''ws://browser.example:9222/devtools/page/localhost-tab''"
    by (simp add: spec_rewrite_host_def cdp_host_world_cdp)
qed

text \<open>
  Claim C7, as the code has it. Take any run of the server in which, at every port
  scan, the bind fails on each port that a registered session holds or that a call
  of \<open>create_session\<close> suspended in its settle delay was given. Then at every
  point no two registered sessions hold the same port, also when calls of
  \<open>create_session\<close> overlap. The exclusion is the operating system's; the code
  keeps no reservation of its own.
\<close>

theorem registered_ports_distinct_while_exclusive:
  "reach_exclusive (srv, w, pend) \<Longrightarrow>
     distinct (ports_of (browser_sessions srv))
     \<and> (\<forall>k1 k2 s1 s2. map_of (browser_sessions srv) k1 = Some s1
            \<and> map_of (browser_sessions srv) k2 = Some s2 \<and> k1 \<noteq> k2 \<longrightarrow> port s1 \<noteq> port s2)"
proof -
  assume "reach_exclusive (srv, w, pend)"
  from reach_exclusive_ports [OF this] have d: "distinct (ports_of (browser_sessions srv))" by simp
  then show ?thesis using distinct_ports_pairwise by blast
qed

theorem registered_ports_distinct_while_exclusive_witness:
  "reach_exclusive (srv_ac, world0, [])
   \<and> map_of (browser_sessions srv_ac) ''a'' = Some session_a
   \<and> map_of (browser_sessions srv_ac) ''c'' = Some session_c
   \<and> port session_a \<noteq> port session_c"
proof -
  have a: "map_of (browser_sessions srv_ac) ''a'' = Some session_a"
    and c: "map_of (browser_sessions srv_ac) ''c'' = Some session_c"
    by (simp_all add: srv_ac_def)
  have "''a'' \<noteq> ''c''" by simp
  with registered_ports_distinct_while_exclusive [OF reach_srv_ac] a c
  have "port session_a \<noteq> port session_c" by blast
  with reach_srv_ac a c show ?thesis by simp
qed

text \<open>
  Claim C7 as it is stated fails. Two calls of \<open>create_session\<close> overlap: the
  second scans the ports while the first is in its settle delay and its browser has
  not bound port 9222 yet, so the bind on 9222 succeeds again; both children are
  running when they are probed, and both sessions are registered with port 9222.
  The same happens without overlap when the browser of a registered session has
  exited and its port is free again.
\<close>

theorem shared_port_counterexample:
  "create_launch io_a world0 = (Inr launched_a, world_running)
   \<and> create_launch io_b world_running = (Inr launched_b, world_two)
   \<and> fst (snd (create_register io_a launched_a (server0, world_two))) = srv_a
   \<and> fst (snd (create_register io_b launched_b (srv_a, world_two))) = srv_ab
   \<and> fst (snd (create_session io_b (fst (snd (create_session io_a (server0, world0))), world0)))
       = srv_ab
   \<and> map_of (browser_sessions srv_ab) ''a'' = Some session_a
   \<and> map_of (browser_sessions srv_ab) ''b'' = Some session_b
   \<and> port session_a = 9222 \<and> port session_b = 9222"
proof (intro conjI)
  show "create_launch io_a world0 = (Inr launched_a, world_running)" by (rule launch_a)
  show "create_launch io_b world_running = (Inr launched_b, world_two)" by (rule launch_b)
  show "fst (snd (create_register io_a launched_a (server0, world_two))) = srv_a"
    by (rule register_a_alone) (simp add: world_two_def world_running_def)
  show "fst (snd (create_register io_b launched_b (srv_a, world_two))) = srv_ab"
    by (rule register_b_after_a) (simp add: world_two_def)
  show "fst (snd (create_session io_b (fst (snd (create_session io_a (server0, world0))), world0)))
       = srv_ab"
    by (simp add: create_session_a create_session_b_after_a)
  show "map_of (browser_sessions srv_ab) ''a'' = Some session_a"
    and "map_of (browser_sessions srv_ab) ''b'' = Some session_b"
    by (simp_all add: srv_ab_def)
  show "port session_a = 9222" by (simp add: session_a_def)
  show "port session_b = 9222" by (simp add: session_b_def)
qed

text \<open>
  Claim C8. Over any run of the drain loop in which no other handler stores a session
  under the watched id again, a session that is still registered at the end was
  registered at the start and its events then are the first of its events now: the
  buffer only grows at its end. When the session has been removed while a receive
  was in flight, whatever the receive brings, the loop leaves the registry as the
  removal left it; and once the session is gone the loop returns without a write.
\<close>

theorem events_buffer_only_grows:
  "((\<forall>t \<in> set ts. \<forall>e \<in> set (fst t). \<not> stores_id sid e) \<longrightarrow>
      (\<forall>s'. map_of (fst (drain ld sid ts reg)) sid = Some s' \<longrightarrow>
         (\<exists>s. map_of reg sid = Some s \<and> prefix (events s) (events s')
               \<and> length (events s) \<le> length (events s'))))
   \<and> (map_of reg sid \<noteq> None \<and> map_of (apply_exts ext reg) sid = None \<longrightarrow>
        fst (drain ld sid ((ext, r) # ts) reg) = apply_exts ext reg)
   \<and> (map_of reg sid = None \<longrightarrow> drain ld sid ts reg = (reg, Returned))"
proof (intro conjI allI impI)
  fix s'
  assume "\<forall>t \<in> set ts. \<forall>e \<in> set (fst t). \<not> stores_id sid e"
    and "map_of (fst (drain ld sid ts reg)) sid = Some s'"
  then obtain s where "map_of reg sid = Some s" "prefix (events s) (events s')"
    using grown_prefix [OF drain_grown] by blast
  then show "\<exists>s. map_of reg sid = Some s \<and> prefix (events s) (events s')
               \<and> length (events s) \<le> length (events s')"
    by (auto dest: prefix_length_le)
next
  assume h: "map_of reg sid \<noteq> None \<and> map_of (apply_exts ext reg) sid = None"
  show "fst (drain ld sid ((ext, r) # ts) reg) = apply_exts ext reg"
    by (rule drain_removed_in_flight [OF h [THEN conjunct2] h [THEN conjunct1]])
next
  assume "map_of reg sid = None"
  then show "drain ld sid ts reg = (reg, Returned)" by (rule drain_absent)
qed

theorem events_buffer_only_grows_witness:
  "drain loads_text ''a'' [([], Message ''e1''), ([], Timeout), ([], Message ''e2'')] [(''a'', session_a)]
     = ([(''a'', session_a\<lparr>events := [JStr ''e1'', JStr ''e2'']\<rparr>)], Suspended)
   \<and> length (events session_a) \<le> length [JStr ''e1'', JStr ''e2'']
   \<and> drain loads_text ''a'' [([ExtDelete ''a''], Message ''e3''), ([], Message ''e4'')] [(''a'', session_a)]
     = ([], Returned)"
proof (intro conjI)
  let ?ts = "[([], Message ''e1''), ([], Timeout), ([], Message ''e2'')]"
  let ?reg = "[(''a'', session_a)]"
  show run: "drain loads_text ''a'' ?ts ?reg
     = ([(''a'', session_a\<lparr>events := [JStr ''e1'', JStr ''e2'']\<rparr>)], Suspended)"
    by (simp add: loads_text_def apply_exts_def store_event_def session_a_def)
  have quiet: "\<forall>t \<in> set ?ts. \<forall>e \<in> set (fst t). \<not> stores_id ''a'' e" by simp
  have "map_of (fst (drain loads_text ''a'' ?ts ?reg)) ''a''
          = Some (session_a\<lparr>events := [JStr ''e1'', JStr ''e2'']\<rparr>)"
    unfolding run by simp
  with events_buffer_only_grows [of ?ts "''a''" loads_text ?reg "[]" Timeout,
      THEN conjunct1, THEN mp, OF quiet]
  obtain s where "map_of ?reg ''a'' = Some s"
    and "length (events s) \<le> length (events (session_a\<lparr>events := [JStr ''e1'', JStr ''e2'']\<rparr>))"
    by blast
  then show "length (events session_a) \<le> length [JStr ''e1'', JStr ''e2'']" by simp
next
  let ?reg = "[(''a'', session_a)]"
  have gone: "map_of ?reg ''a'' \<noteq> None \<and> map_of (apply_exts [ExtDelete ''a''] ?reg) ''a'' = None"
    by (simp add: apply_exts_def)
  from events_buffer_only_grows [of "[([], Message ''e4'')]" "''a''" loads_text ?reg
      "[ExtDelete ''a'']" "Message ''e3''", THEN conjunct2, THEN conjunct1, rule_format, OF gone]
  have "fst (drain loads_text ''a'' [([ExtDelete ''a''], Message ''e3''), ([], Message ''e4'')] ?reg) = []"
    by (simp add: apply_exts_def)
  moreover have "snd (drain loads_text ''a'' [([ExtDelete ''a''], Message ''e3''), ([], Message ''e4'')] ?reg)
      = Returned"
    by (simp add: loads_text_def apply_exts_def store_event_def)
  ultimately show "drain loads_text ''a'' [([ExtDelete ''a''], Message ''e3''), ([], Message ''e4'')] ?reg
     = ([], Returned)"
    by (simp add: prod_eq_iff)
qed

text \<open>
  Claim C9, as the code has it. After \<open>shutdown_event\<close> both dictionaries are empty,
  and \<open>SIGKILL\<close> has been sent to the process of every session that was registered
  and that the process table still held, unless the liveness check or \<open>os.kill\<close>
  raised for it: such an exception is caught and logged and the loop goes on. No
  other signal is sent. The handler does not wait for a process to exit and does not
  collect its exit status: when it returns, \<open>psutil.pid_exists\<close> and with it the
  server's own \<open>is_process_running\<close> answer for every pid what they answered before.
\<close>

theorem shutdown_event_clears_registry:
  "browser_sessions (fst (shutdown_event (srv, w))) = []
   \<and> monitoring_tasks (fst (shutdown_event (srv, w))) = []
   \<and> (\<forall>e \<in> set (browser_sessions srv).
         (pid (process (snd e)) \<in> alive w \<or> pid (process (snd e)) \<in> zombies w)
         \<and> pid (process (snd e)) \<notin> kill_denied w \<and> pid (process (snd e)) \<notin> pid_exists_raises w
         \<longrightarrow> (pid (process (snd e)), SIGKILL) \<in> set (sent (snd (shutdown_event (srv, w)))))
   \<and> set (sent (snd (shutdown_event (srv, w))))
        \<subseteq> set (sent w) \<union> (\<lambda>e. (pid (process (snd e)), SIGKILL)) ` set (browser_sessions srv)
   \<and> (\<forall>p. pid_exists (snd (shutdown_event (srv, w))) p = pid_exists w p)
   \<and> (\<forall>p. is_process_running (snd (shutdown_event (srv, w))) p = is_process_running w p)"
proof -
  obtain w' c' where run: "shutdown_loop (browser_sessions srv) (monitoring_tasks srv)
      (w, cancelled srv) = (w', c')" by (cases "shutdown_loop (browser_sessions srv)
      (monitoring_tasks srv) (w, cancelled srv)")
  then have ev: "shutdown_event (srv, w) =
      (\<lparr>browser_sessions = [], monitoring_tasks = [], cancelled = c'\<rparr>, w')"
    by (simp add: shutdown_event_def)
  note loop = shutdown_loop_signals [OF run]
  from loop have a: "alive w' = alive w" and z: "zombies w' = zombies w"
    and r: "pid_exists_raises w' = pid_exists_raises w" by blast+
  have same: "\<forall>p. pid_exists w' p = pid_exists w p"
    unfolding pid_exists_def a z r by (rule allI) (rule refl)
  then have run_same: "\<forall>p. is_process_running w' p = is_process_running w p"
    unfolding is_process_running_def by simp
  from loop have sends: "\<forall>e \<in> set (browser_sessions srv).
         (pid (process (snd e)) \<in> alive w \<or> pid (process (snd e)) \<in> zombies w)
         \<and> pid (process (snd e)) \<notin> kill_denied w \<and> pid (process (snd e)) \<notin> pid_exists_raises w
         \<longrightarrow> (pid (process (snd e)), SIGKILL) \<in> set (sent w')" by blast
  from loop have bound: "set (sent w')
        \<subseteq> set (sent w) \<union> (\<lambda>e. (pid (process (snd e)), SIGKILL)) ` set (browser_sessions srv)"
    by blast
  have f: "fst (shutdown_event (srv, w)) =
      \<lparr>browser_sessions = [], monitoring_tasks = [], cancelled = c'\<rparr>"
    and s: "snd (shutdown_event (srv, w)) = w'" by (simp_all add: ev)
  show ?thesis unfolding f s using same run_same sends bound by simp
qed

theorem shutdown_event_clears_registry_witness:
  "map_of (browser_sessions srv_a) ''a'' = Some session_a
   \<and> pid (process session_a) = 101 \<and> 101 \<in> alive world_running
   \<and> browser_sessions (fst (shutdown_event (srv_a, world_running))) = []
   \<and> monitoring_tasks (fst (shutdown_event (srv_a, world_running))) = []
   \<and> (101, SIGKILL) \<in> set (sent (snd (shutdown_event (srv_a, world_running))))
   \<and> is_process_running (snd (shutdown_event (srv_a, world_running))) 101
       = is_process_running world_running 101"
proof -
  note t = shutdown_event_clears_registry [of srv_a world_running]
  have m: "(''a'', session_a) \<in> set (browser_sessions srv_a)" by (simp add: srv_a_def)
  have ok: "(pid (process (snd (''a'', session_a))) \<in> alive world_running
        \<or> pid (process (snd (''a'', session_a))) \<in> zombies world_running)
     \<and> pid (process (snd (''a'', session_a))) \<notin> kill_denied world_running
     \<and> pid (process (snd (''a'', session_a))) \<notin> pid_exists_raises world_running"
    by (simp add: world_running_def world0_def session_a_def)
  from t [THEN conjunct2, THEN conjunct2, THEN conjunct1, THEN bspec, OF m, THEN mp, OF ok]
  have "(101, SIGKILL) \<in> set (sent (snd (shutdown_event (srv_a, world_running))))"
    by (simp add: session_a_def)
  moreover have "map_of (browser_sessions srv_a) ''a'' = Some session_a" by (simp add: srv_a_def)
  moreover have "pid (process session_a) = 101" by (simp add: session_a_def)
  moreover have "101 \<in> alive world_running" by (simp add: world_running_def world0_def)
  ultimately show ?thesis using t by simp
qed

text \<open>
  Claim C9 as it is stated fails. The process 101 of the one registered session is
  running. \<open>shutdown_event\<close> sends it \<open>SIGKILL\<close>, empties the dictionaries and
  returns; nothing has waited for the process or collected its exit status, and the
  server's own liveness check \<open>is_process_running\<close> still reports it. And when
  \<open>os.kill\<close> raises for the process, the exception is logged, no signal is sent,
  and the liveness check reports the process as before.
\<close>

theorem shutdown_event_counterexample:
  "map_of (browser_sessions srv_a) ''a'' = Some session_a
   \<and> pid (process session_a) = 101
   \<and> is_process_running world_running 101 = True
   \<and> fst (shutdown_event (srv_a, world_running)) =
       \<lparr>browser_sessions = [], monitoring_tasks = [], cancelled = [(''a'', 9222)]\<rparr>
   \<and> sent (snd (shutdown_event (srv_a, world_running))) = [(101, SIGKILL)]
   \<and> is_process_running (snd (shutdown_event (srv_a, world_running))) 101 = True
   \<and> os_kill world_denied 101 SIGKILL = Inl (OSError ''PermissionError'')
   \<and> fst (shutdown_event (srv_a, world_denied)) =
       \<lparr>browser_sessions = [], monitoring_tasks = [], cancelled = [(''a'', 9222)]\<rparr>
   \<and> sent (snd (shutdown_event (srv_a, world_denied))) = []
   \<and> is_process_running (snd (shutdown_event (srv_a, world_denied))) 101 = True"
  by (simp add: shutdown_event_def srv_a_def session_a_def world_running_def world_denied_def
      world0_def kill_if_running_def is_process_running_def pid_exists_def os_kill_def)

text \<open>
  Claim C10. For a registered session id, \<open>delete_session\<close> answers with success
  and removes the session and its relay task from the two dictionaries, whatever the
  liveness check and \<open>os.kill\<close> do: their exceptions are caught and logged. The
  other sessions stay as they are.
\<close>

theorem delete_session_always_deregisters:
  "map_of (browser_sessions srv) sid \<noteq> None \<Longrightarrow>
     (\<exists>srv' w'. delete_session sid (srv, w) =
          (Inr (''success'', ''Session '' @ sid @ '' terminated''), srv', w')
        \<and> map_of (browser_sessions srv') sid = None
        \<and> map_of (monitoring_tasks srv') sid = None
        \<and> (\<forall>k. k \<noteq> sid \<longrightarrow> map_of (browser_sessions srv') k = map_of (browser_sessions srv) k))"
proof -
  assume "map_of (browser_sessions srv) sid \<noteq> None"
  then obtain session where "map_of (browser_sessions srv) sid = Some session" by blast
  from delete_session_found [OF this, of w] show ?thesis
    by (simp add: map_of_delete_same)
qed

theorem delete_session_always_deregisters_witness:
  "os_kill world_denied 101 SIGTERM = Inl (OSError ''PermissionError'')
   \<and> (\<exists>srv' w'. delete_session ''a'' (srv_a, world_denied) =
          (Inr (''success'', ''Session a terminated''), srv', w')
        \<and> map_of (browser_sessions srv') ''a'' = None
        \<and> map_of (monitoring_tasks srv') ''a'' = None)"
proof
  show "os_kill world_denied 101 SIGTERM = Inl (OSError ''PermissionError'')"
    by (simp add: os_kill_def world_denied_def world0_def)
next
  have "map_of (browser_sessions srv_a) ''a'' \<noteq> None" by (simp add: srv_a_def)
  from delete_session_always_deregisters [OF this, of world_denied]
  show "\<exists>srv' w'. delete_session ''a'' (srv_a, world_denied) =
          (Inr (''success'', ''Session a terminated''), srv', w')
        \<and> map_of (browser_sessions srv') ''a'' = None
        \<and> map_of (monitoring_tasks srv') ''a'' = None"
    by auto
qed

end
